theory Spec2Isabelle
  imports Main "HOL-Library.Sublist"
begin

section \<open>Python text primitives used by the installer\<close>

text \<open>
  The script \<^verbatim>\<open>install-as-us-variant.py\<close> reads and writes text files. A Python
  \<^verbatim>\<open>str\<close> is modelled as a \<^typ>\<open>string\<close>; a \<^typ>\<open>char\<close> stands for a code point
  below 256, and \<open>isspace\<close> lists the code points of that range that
  \<^verbatim>\<open>str.strip()\<close> removes.
\<close>

definition LF :: char where
  "LF = CHR 0x0A"

definition CR :: char where
  "CR = CHR 0x0D"

definition isspace :: "char \<Rightarrow> bool" where
  "isspace c \<longleftrightarrow>
     c \<in> set [CHR 0x09, CHR 0x0A, CHR 0x0B, CHR 0x0C, CHR 0x0D,
              CHR 0x1C, CHR 0x1D, CHR 0x1E, CHR 0x1F, CHR 0x20, CHR 0x85, CHR 0xA0]"

text \<open>\<^verbatim>\<open>s.strip()\<close>: leading and trailing whitespace removed.\<close>

definition strip :: "string \<Rightarrow> string" where
  "strip s = rev (dropWhile isspace (rev (dropWhile isspace s)))"

text \<open>\<^verbatim>\<open>s.startswith(p)\<close>.\<close>

definition startswith :: "string \<Rightarrow> string \<Rightarrow> bool" where
  "startswith s p = prefix p s"

text \<open>A value formatted between single quotes, as the messages of the script do.\<close>

definition quoted :: "string \<Rightarrow> string" where
  "quoted s = [CHR 0x27] @ s @ [CHR 0x27]"

text \<open>
  A file opened in text mode with the default \<^verbatim>\<open>newline=None\<close> is read with universal
  newlines: \<^verbatim>\<open>\r\n\<close> and a lone \<^verbatim>\<open>\r\<close> both arrive as \<^verbatim>\<open>\n\<close>. Writing on Linux
  translates nothing.
\<close>

fun universal_newlines :: "string \<Rightarrow> string" where
  "universal_newlines [] = []"
| "universal_newlines [c] = (if c = CR then [LF] else [c])"
| "universal_newlines (c # d # cs) =
     (if c = CR then
        (if d = LF then LF # universal_newlines cs else LF # universal_newlines (d # cs))
      else c # universal_newlines (d # cs))"

text \<open>
  \<^verbatim>\<open>f.readlines()\<close> on the translated text: every line keeps its terminating
  \<^verbatim>\<open>\n\<close>; only the last line can lack one.
\<close>

fun split_keepends :: "string \<Rightarrow> string list" where
  "split_keepends [] = []"
| "split_keepends (c # cs) =
     (if c = LF then [c] # split_keepends cs
      else (case split_keepends cs of
              [] \<Rightarrow> [[c]]
            | l # ls \<Rightarrow> (c # l) # ls))"

definition read_text :: "string \<Rightarrow> string" where
  "read_text raw = universal_newlines raw"

definition readlines :: "string \<Rightarrow> string list" where
  "readlines raw = split_keepends (universal_newlines raw)"

section \<open>The constants of the script\<close>

text \<open>\<^verbatim>\<open>VARIANTS_TO_INSTALL\<close>: a dict, iterated in insertion order.\<close>

definition VARIANTS_TO_INSTALL :: "(string \<times> string) list" where
  "VARIANTS_TO_INSTALL =
     [(''carbon'', ''English (Carbon)''),
      (''carbon-angle'', ''English (Carbon, Angle Mod)'')]"

definition SYMBOL_FILE_NAME :: string where
  "SYMBOL_FILE_NAME = ''carbon-as-variant''"

definition TARGET_SYMBOL_FILE_NAME :: string where
  "TARGET_SYMBOL_FILE_NAME = ''us''"

definition BASE_LAYOUT :: string where
  "BASE_LAYOUT = ''us''"

definition XKB_SYMBOLS_DIR :: string where
  "XKB_SYMBOLS_DIR = ''/usr/share/X11/xkb/symbols''"

definition XKB_RULES_FILES :: "string list" where
  "XKB_RULES_FILES =
     [''/usr/share/X11/xkb/rules/evdev.xml'',
      ''/usr/share/X11/xkb/rules/base.xml'']"

section \<open>The line scanner of \<^verbatim>\<open>remove()\<close>\<close>

text \<open>
  Lines 145 to 155 of the script:
  \<^verbatim>\<open>
  new_lines = []
  skip = False
  for line in lines:
      if line.strip().startswith('xkb_symbols "carbon"') or \
         line.strip().startswith('xkb_symbols "carbon-angle"'):
          skip = True
      if skip and line.strip().startswith('};'):
          skip = False
          continue
      if not skip:
          new_lines.append(line)
  \<close>
  The loop state is the pair of \<^verbatim>\<open>skip\<close> and \<^verbatim>\<open>new_lines\<close>.
\<close>

definition is_carbon_header :: "string \<Rightarrow> bool" where
  \<open>is_carbon_header line \<longleftrightarrow>
     startswith (strip line) ''xkb_symbols "carbon"'' \<or>
     startswith (strip line) ''xkb_symbols "carbon-angle"''\<close>

definition starts_closing :: "string \<Rightarrow> bool" where
  "starts_closing line \<longleftrightarrow> startswith (strip line) ''};''"

fun scan_line :: "bool \<times> string list \<Rightarrow> string \<Rightarrow> bool \<times> string list" where
  "scan_line (skip, new_lines) line =
     (let skip1 = (if is_carbon_header line then True else skip) in
      if skip1 \<and> starts_closing line then (False, new_lines)
      else if \<not> skip1 then (skip1, new_lines @ [line])
      else (skip1, new_lines))"

definition scan_lines :: "string list \<Rightarrow> bool \<times> string list" where
  "scan_lines lines = foldl scan_line (False, []) lines"

definition clean_lines :: "string list \<Rightarrow> string list" where
  "clean_lines lines = snd (scan_lines lines)"

subsection \<open>The scanner as the specification words it\<close>

text \<open>
  The specification describes \<^verbatim>\<open>RemoveBlocks(filePath, ids)\<close> as a scan with an
  "inside a managed block" flag: a line whose trimmed content starts with
  \<^verbatim>\<open>xkb_symbols "<id>"\<close> for a managed id is dropped and sets the flag, every later
  line is dropped up to and including the closing line, which clears the flag, and
  all other lines are kept in order. The test for the closing line is a parameter
  here, so that the wording of the specification (trimmed content equal to the
  marker) and the test the script makes can both be put in.
\<close>

datatype scan_state = Outside | InsideManagedBlock

definition managed_ids :: "string list" where
  "managed_ids = map fst VARIANTS_TO_INSTALL"

definition header_of :: "string \<Rightarrow> string" where
  "header_of ident = ''xkb_symbols '' @ [CHR 0x22] @ ident @ [CHR 0x22]"

definition names_managed_id :: "string \<Rightarrow> bool" where
  "names_managed_id line \<longleftrightarrow>
     list_ex (\<lambda>ident. startswith (strip line) (header_of ident)) managed_ids"

definition equals_closing :: "string \<Rightarrow> bool" where
  "equals_closing line \<longleftrightarrow> strip line = ''};''"

fun remove_blocks :: "(string \<Rightarrow> bool) \<Rightarrow> scan_state \<Rightarrow> string list \<Rightarrow> string list" where
  "remove_blocks closing st [] = []"
| "remove_blocks closing Outside (line # rest) =
     (if names_managed_id line then remove_blocks closing InsideManagedBlock rest
      else line # remove_blocks closing Outside rest)"
| "remove_blocks closing InsideManagedBlock (line # rest) =
     (if closing line then remove_blocks closing Outside rest
      else remove_blocks closing InsideManagedBlock rest)"

section \<open>Element trees\<close>

text \<open>
  The element tree of \<^verbatim>\<open>xml.etree.ElementTree\<close>: an element has a tag, attributes, the
  text before its first child, the tail after its end tag, and its children.
\<close>

datatype element =
  Element (tag: string) (attrib: "(string \<times> string) list")
    (text_of: "string option") (tail_of: "string option") (children: "element list")

definition set_children :: "element list \<Rightarrow> element \<Rightarrow> element" where
  "set_children cs e = Element (tag e) (attrib e) (text_of e) (tail_of e) cs"

definition set_tail :: "string option \<Rightarrow> element \<Rightarrow> element" where
  "set_tail t e = Element (tag e) (attrib e) (text_of e) t (children e)"

text \<open>\<^verbatim>\<open>e.findall('t')\<close> and \<^verbatim>\<open>e.find('t')\<close>: the children with tag \<open>t\<close>, the first of them.\<close>

definition findall :: "element \<Rightarrow> string \<Rightarrow> element list" where
  "findall e t = filter (\<lambda>c. tag c = t) (children e)"

fun first_index :: "('a \<Rightarrow> bool) \<Rightarrow> 'a list \<Rightarrow> nat option" where
  "first_index P [] = None"
| "first_index P (x # xs) =
     (if P x then Some 0 else map_option Suc (first_index P xs))"

text \<open>
  \<^verbatim>\<open>e.find('./a/b')\<close>: the first \<open>b\<close> child of an \<open>a\<close> child, in document order; the script
  uses it as \<^verbatim>\<open>e.find('./configItem/name')\<close>.
\<close>

definition find_path :: "element \<Rightarrow> string \<Rightarrow> string \<Rightarrow> element option" where
  "find_path e a b =
     (case concat (map (\<lambda>c. findall c b) (findall e a)) of
        [] \<Rightarrow> None
      | found # _ \<Rightarrow> Some found)"

definition find_config_name :: "element \<Rightarrow> element option" where
  "find_config_name e = find_path e ''configItem'' ''name''"

text \<open>\<^verbatim>\<open>name_el is not None and name_el.text == v\<close>.\<close>

definition name_is :: "element \<Rightarrow> string \<Rightarrow> bool" where
  "name_is e v =
     (case find_config_name e of
        None \<Rightarrow> False
      | Some name_el \<Rightarrow> text_of name_el = Some v)"

text \<open>
  \<^verbatim>\<open>e.iter()\<close>: the element and its descendants in document order. A node is named by
  its path, the child indices from the root down; the path stands for the object
  reference that Python holds.
\<close>

fun iter :: "element \<Rightarrow> (nat list \<times> element) list"
  and iter_children :: "nat \<Rightarrow> element list \<Rightarrow> (nat list \<times> element) list" where
  "iter (Element t a x y cs) = ([], Element t a x y cs) # iter_children 0 cs"
| "iter_children i [] = []"
| "iter_children i (c # cs) =
     map (\<lambda>(p, d). (i # p, d)) (iter c) @ iter_children (Suc i) cs"

text \<open>\<^verbatim>\<open>root.findall(".//t")\<close>: the descendants with tag \<open>t\<close>, the root itself left out.\<close>

definition findall_descendants :: "element \<Rightarrow> string \<Rightarrow> (nat list \<times> element) list" where
  "findall_descendants root t =
     filter (\<lambda>(p, d). tag d = t) (iter_children 0 (children root))"

text \<open>The element at a path, and a change made in place to the element at a path.\<close>

fun subtree :: "element \<Rightarrow> nat list \<Rightarrow> element option" where
  "subtree e [] = Some e"
| "subtree e (i # p) =
     (if i < length (children e) then subtree (children e ! i) p else None)"

fun update_at :: "nat list \<Rightarrow> (element \<Rightarrow> element) \<Rightarrow> element \<Rightarrow> element" where
  "update_at [] f e = f e"
| "update_at (i # p) f e =
     (if i < length (children e)
      then set_children ((children e)[i := update_at p f (children e ! i)]) e
      else e)"

subsection \<open>\<^verbatim>\<open>ET.indent(tree, space='  ')\<close>\<close>

text \<open>
  The library function, as CPython 3.9 and later define it:
  \<^verbatim>\<open>
  def indent(tree, space="  ", level=0):
      if not len(tree): return
      indentations = ["\n" + level * space]
      def _indent_children(elem, level):
          child_level = level + 1
          child_indentation = indentations[level] + space
          if not elem.text or not elem.text.strip():
              elem.text = child_indentation
          for child in elem:
              if len(child):
                  _indent_children(child, child_level)
              if not child.tail or not child.tail.strip():
                  child.tail = child_indentation
          if not child.tail.strip():
              child.tail = indentations[level]
      _indent_children(tree, 0)
  \<close>
\<close>

definition blank :: "string option \<Rightarrow> bool" where
  "blank s = (case s of None \<Rightarrow> True | Some x \<Rightarrow> strip x = [])"

definition indentation :: "nat \<Rightarrow> string" where
  "indentation level = LF # concat (replicate level ''  '')"

definition dedent_last :: "nat \<Rightarrow> element list \<Rightarrow> element list" where
  "dedent_last level cs =
     (case rev cs of
        [] \<Rightarrow> []
      | child # earlier \<Rightarrow>
          rev earlier @
          [if blank (tail_of child) then set_tail (Some (indentation level)) child else child])"

fun indent_children :: "nat \<Rightarrow> element \<Rightarrow> element"
  and indent_each :: "nat \<Rightarrow> element list \<Rightarrow> element list" where
  "indent_children level (Element t a x y cs) =
     Element t a (if blank x then Some (indentation (Suc level)) else x) y
       (dedent_last level (indent_each (Suc level) cs))"
| "indent_each child_level [] = []"
| "indent_each child_level (c # cs) =
     (let c1 = (if children c \<noteq> [] then indent_children child_level c else c) in
      (if blank (tail_of c1) then set_tail (Some (indentation child_level)) c1 else c1))
     # indent_each child_level cs"

definition indent :: "element \<Rightarrow> element" where
  "indent tree = (if children tree = [] then tree else indent_children 0 tree)"

section \<open>Patching a rules document\<close>

datatype action = Install | Remove

text \<open>
  Lines 87 to 92: the fresh \<^verbatim>\<open>variant\<close> element with its \<^verbatim>\<open>configItem\<close>, \<^verbatim>\<open>name\<close> and
  \<^verbatim>\<open>description\<close>.
\<close>

definition new_variant :: "string \<Rightarrow> string \<Rightarrow> element" where
  "new_variant name description =
     Element ''variant'' [] None None
       [Element ''configItem'' [] None None
          [Element ''name'' [] (Some name) None [],
           Element ''description'' [] (Some description) None []]]"

text \<open>
  \<^verbatim>\<open>for variant in existing_variants: variant_list.remove(variant)\<close>. Python removes the
  child that is the same object; every element of \<^verbatim>\<open>existing_variants\<close> is a child of
  the list, so removing the first equal child, once per element, removes as many
  children with the same content.
\<close>

definition remove_children :: "element list \<Rightarrow> element \<Rightarrow> element" where
  "remove_children vs vl = foldl (\<lambda>e v. set_children (remove1 v (children e)) e) vl vs"

definition append_child :: "element \<Rightarrow> element \<Rightarrow> element" where
  "append_child e c = set_children (children e @ [c]) e"

text \<open>
  Lines 70 to 94, the body of the loop over \<^verbatim>\<open>VARIANTS_TO_INSTALL.items()\<close>. The state
  is the variant list (\<open>None\<close> for Python's \<^verbatim>\<open>None\<close>) and the lines printed so far. On
  install the variant list is never \<^verbatim>\<open>None\<close>: line 68 has created it.
\<close>

definition existing_variants :: "element option \<Rightarrow> string \<Rightarrow> element list" where
  "existing_variants variant_list name =
     (case variant_list of
        None \<Rightarrow> []
      | Some vl \<Rightarrow> filter (\<lambda>variant. name_is variant name) (findall vl ''variant''))"

fun reconcile ::
  "action \<Rightarrow> element option \<times> string list \<Rightarrow> string \<times> string \<Rightarrow> element option \<times> string list" where
  \<open>reconcile Remove (variant_list, out) (name, description) =
     (map_option (remove_children (existing_variants variant_list name)) variant_list,
      out @ map (\<lambda>variant. ''  - Removed variant '' @ quoted name @ ''.'')
              (existing_variants variant_list name))\<close>
| \<open>reconcile Install (variant_list, out) (name, description) =
     (map_option
        (\<lambda>vl. append_child (remove_children (existing_variants variant_list name) vl)
                 (new_variant name description))
        variant_list,
      out @ [''  + Added variant '' @ quoted name @ ''.''])\<close>

text \<open>
  Lines 66 to 94 on the base layout node: find the variant list, create it on
  install, run the loop. The variant list is a child of the layout node, so the
  result is the layout node with that child replaced.
\<close>

definition patch_layout :: "action \<Rightarrow> element \<Rightarrow> element \<times> string list" where
  "patch_layout action layout_node =
     (case first_index (\<lambda>c. tag c = ''variantList'') (children layout_node) of
        Some j \<Rightarrow>
          (case foldl (reconcile action) (Some (children layout_node ! j), [])
                  VARIANTS_TO_INSTALL of
             (Some vl, out) \<Rightarrow> (set_children ((children layout_node)[j := vl]) layout_node, out)
           | (None, out) \<Rightarrow> (layout_node, out))
      | None \<Rightarrow>
          (if action = Install then
             (case foldl (reconcile action) (Some (Element ''variantList'' [] None None []), [])
                     VARIANTS_TO_INSTALL of
                (Some vl, out) \<Rightarrow> (append_child layout_node vl, out)
              | (None, out) \<Rightarrow> (layout_node, out))
           else (layout_node, snd (foldl (reconcile action) (None, []) VARIANTS_TO_INSTALL))))"

text \<open>
  Lines 55 to 60: the first \<^verbatim>\<open>layout\<close> descendant whose \<^verbatim>\<open>configItem/name\<close> text is the
  base layout.
\<close>

definition find_base_layout :: "element \<Rightarrow> (nat list \<times> element) option" where
  "find_base_layout root =
     List.find (\<lambda>(p, layout). name_is layout BASE_LAYOUT) (findall_descendants root ''layout'')"

text \<open>The tree after lines 55 to 94, and the lines printed; \<open>None\<close> when line 62 skips.\<close>

definition patch_tree :: "action \<Rightarrow> element \<Rightarrow> (element \<times> string list) option" where
  "patch_tree action root =
     (case find_base_layout root of
        None \<Rightarrow> None
      | Some (p, layout_node) \<Rightarrow>
          Some (update_at p (\<lambda>l. fst (patch_layout action l)) root,
                snd (patch_layout action layout_node)))"

section \<open>The file system and the process\<close>

text \<open>
  A rules file is known by what \<^verbatim>\<open>ET.parse\<close> makes of it: a parse error with its
  message, or the root element. Writing a tree and parsing the file again gives the
  tree back; comments and the document type, which the parser drops, are not part
  of the model.

  The world holds the files the script reads as text (\<open>text_files\<close>) and the files it
  parses (\<open>xml_files\<close>), both by path; \<open>write_error\<close> gives, for a path that cannot be
  opened for writing, the message of the \<^verbatim>\<open>OSError\<close>; \<open>stdout\<close> is what has been
  printed, one entry per call of \<^verbatim>\<open>print\<close>; \<open>timestamps k\<close> is what the \<open>k\<close>-th reading
  of the clock formats to, and \<open>ticks\<close> counts the readings made. \<open>journal\<close> records
  the file operations in the order the script makes them: a copy, a file opened
  for reading, a file created, appended to or rewritten. Nothing reads the journal;
  it is there for statements about the order of backups and writes.
\<close>

datatype xml_file = Malformed string | Document element

datatype file_event =
  Copied string string | OpenedRead string | Created string | Appended string | Rewrote string

record world =
  text_files :: "string \<rightharpoonup> string"
  xml_files :: "string \<rightharpoonup> xml_file"
  write_error :: "string \<rightharpoonup> string"
  stdout :: "string list"
  timestamps :: "nat \<Rightarrow> string"
  ticks :: nat
  journal :: "file_event list"

record env =
  euid :: nat
  script_dir :: string

text \<open>A call either returns or ends the process with \<^verbatim>\<open>sys.exit\<close> or an uncaught exception.\<close>

datatype outcome = Exit nat world | Return world

fun final :: "outcome \<Rightarrow> world" where
  "final (Exit c w) = w"
| "final (Return w) = w"

fun exit_code :: "outcome \<Rightarrow> nat" where
  "exit_code (Exit c w) = c"
| "exit_code (Return w) = 0"

definition print :: "string \<Rightarrow> world \<Rightarrow> world" where
  "print msg w = w\<lparr>stdout := stdout w @ [msg]\<rparr>"

definition record_event :: "file_event \<Rightarrow> world \<Rightarrow> world" where
  "record_event ev w = w\<lparr>journal := journal w @ [ev]\<rparr>"

definition file_exists :: "world \<Rightarrow> string \<Rightarrow> bool" where
  "file_exists w p \<longleftrightarrow> text_files w p \<noteq> None \<or> xml_files w p \<noteq> None"

text \<open>\<^verbatim>\<open>os.path.join(a, b)\<close> on POSIX.\<close>

definition path_join :: "string \<Rightarrow> string \<Rightarrow> string" where
  "path_join a b =
     (if startswith b ''/'' then b
      else if a = [] \<or> last a = CHR ''/'' then a @ b
      else a @ ''/'' @ b)"

text \<open>The message of the \<^verbatim>\<open>FileNotFoundError\<close> that opening a missing file raises.\<close>

definition no_such_file :: "string \<Rightarrow> string" where
  "no_such_file p = ''[Errno 2] No such file or directory: '' @ quoted p"

definition backup_path_of :: "string \<Rightarrow> string \<Rightarrow> string" where
  "backup_path_of file_path timestamp = file_path @ ''.bak_'' @ timestamp"

text \<open>
  Lines 33 to 38. \<^verbatim>\<open>shutil.copy2\<close> that cannot write raises, and no caller catches it:
  the process ends with status 1.
\<close>

definition backup_file :: "string \<Rightarrow> world \<Rightarrow> outcome" where
  "backup_file file_path w =
     (if file_exists w file_path then
        (let timestamp = timestamps w (ticks w);
             backup_path = backup_path_of file_path timestamp;
             w1 = w\<lparr>ticks := Suc (ticks w)\<rparr>
         in case write_error w1 backup_path of
              Some e \<Rightarrow> Exit 1 w1
            | None \<Rightarrow>
                Return (print (''  -> Created backup: '' @ backup_path)
                  (record_event (Copied file_path backup_path)
                    (w1\<lparr>text_files := (text_files w1)(backup_path := text_files w1 file_path),
                        xml_files := (xml_files w1)(backup_path := xml_files w1 file_path)\<rparr>))))
      else Return w)"

text \<open>
  Lines 43 to 104, the body of the loop over \<^verbatim>\<open>XKB_RULES_FILES\<close>. The file is parsed
  after the backup has been made; a file that is gone by then raises in \<^verbatim>\<open>ET.parse\<close>
  and ends in the handler of line 102.
\<close>

definition rules_file_step :: "action \<Rightarrow> string \<Rightarrow> world \<Rightarrow> outcome" where
  \<open>rules_file_step action xml_file w =
     (case xml_files w xml_file of
        None \<Rightarrow> Return (print (''Warning: Rules file not found, skipping: '' @ xml_file) w)
      | Some present \<Rightarrow>
          (case backup_file xml_file (print ([LF] @ ''Processing: '' @ xml_file) w) of
             Exit c w1 \<Rightarrow> Exit c w1
           | Return w0 \<Rightarrow>
               (let w1 = record_event (OpenedRead xml_file) w0 in
                case xml_files w0 xml_file of
                  None \<Rightarrow>
                    Exit 1 (print (''An unexpected error occurred: '' @ no_such_file xml_file) w0)
                | Some (Malformed e) \<Rightarrow>
                    Exit 1 (print (''Error parsing XML file '' @ xml_file @ '': '' @ e) w1)
                | Some (Document root) \<Rightarrow>
                    (case patch_tree action root of
                       None \<Rightarrow>
                         Return (print (''Error: Base layout '' @ quoted BASE_LAYOUT
                                        @ '' not found in '' @ xml_file @ ''.'') w1)
                     | Some (root1, out) \<Rightarrow>
                         (let w2 = w1\<lparr>stdout := stdout w1 @ out\<rparr> in
                          case write_error w2 xml_file of
                            Some e \<Rightarrow>
                              Exit 1 (print (''An unexpected error occurred: '' @ e) w2)
                          | None \<Rightarrow>
                              Return (record_event (Rewrote xml_file)
                                (w2\<lparr>xml_files :=
                                  (xml_files w2)(xml_file \<mapsto> Document (indent root1))\<rparr>)))))))\<close>

fun rules_loop :: "action \<Rightarrow> string list \<Rightarrow> world \<Rightarrow> outcome" where
  "rules_loop action [] w = Return w"
| "rules_loop action (xml_file # rest) w =
     (case rules_file_step action xml_file w of
        Exit c w1 \<Rightarrow> Exit c w1
      | Return w1 \<Rightarrow> rules_loop action rest w1)"

definition modify_xkb_rules :: "action \<Rightarrow> world \<Rightarrow> outcome" where
  "modify_xkb_rules action w = rules_loop action XKB_RULES_FILES w"

text \<open>
  Lines 115 to 126: the backup of the destination and the append. The source file
  is opened after the backup, then the destination is opened for appending (which
  creates it when it is missing); either \<^verbatim>\<open>open\<close> that fails ends in the handler of
  line 124.
\<close>

definition append_symbols :: "string \<Rightarrow> string \<Rightarrow> world \<Rightarrow> outcome" where
  "append_symbols source_file destination_file w =
     (case backup_file destination_file w of
        Exit c w1 \<Rightarrow> Exit c w1
      | Return w1 \<Rightarrow>
          (let w1a = print ([LF] @ ''Appending '' @ quoted source_file @ '' into ''
                            @ quoted destination_file @ ''...'') w1;
               w2 = record_event (OpenedRead source_file) w1a
           in case (text_files w1a source_file, write_error w2 destination_file) of
                (None, _) \<Rightarrow>
                  Exit 1 (print (''Error: Could not append to symbols file. ''
                                 @ no_such_file source_file) w1a)
              | (Some blob, Some err) \<Rightarrow>
                  Exit 1 (print (''Error: Could not append to symbols file. '' @ err) w2)
              | (Some blob, None) \<Rightarrow>
                  (let old = (case text_files w2 destination_file of
                                None \<Rightarrow> [] | Some c \<Rightarrow> c)
                   in Return (print ''Symbol variants appended successfully.''
                        (record_event
                          (if text_files w2 destination_file = None
                           then Created destination_file
                           else Appended destination_file)
                          (w2\<lparr>text_files := (text_files w2)
                            (destination_file \<mapsto> old @ [LF, LF] @ read_text blob)\<rparr>))))))"

text \<open>Lines 107 to 131.\<close>

definition install :: "env \<Rightarrow> world \<Rightarrow> outcome" where
  "install e w0 =
     (let w = print ''--- Starting Carbon Layout Installation ---'' w0;
          source_file = path_join (script_dir e) SYMBOL_FILE_NAME
      in case text_files w source_file of
           None \<Rightarrow>
             Exit 1 (print (''Error: Symbol file '' @ quoted source_file @ '' not found.'') w)
         | Some present \<Rightarrow>
             (case append_symbols source_file
                     (path_join XKB_SYMBOLS_DIR TARGET_SYMBOL_FILE_NAME) w of
                Exit c w1 \<Rightarrow> Exit c w1
              | Return w4 \<Rightarrow>
                  (case modify_xkb_rules Install w4 of
                     Exit c w5 \<Rightarrow> Exit c w5
                   | Return w5 \<Rightarrow>
                       Return
                         (print ''To apply changes, please log out and log back in.''
                           (print ([LF] @ ''--- Installation Complete ---'') w5)))))"

text \<open>
  Lines 137 to 163: the symbols file is cleaned only when it exists. It is read
  after the backup has been made.
\<close>

definition clean_symbols :: "string \<Rightarrow> world \<Rightarrow> outcome" where
  "clean_symbols target_file w =
     (case text_files w target_file of
        None \<Rightarrow> Return w
      | Some present \<Rightarrow>
          (case backup_file target_file w of
             Exit c w1 \<Rightarrow> Exit c w1
           | Return w1 \<Rightarrow>
               (let w1a = print ([LF] @ ''Cleaning Carbon variants from: '' @ target_file @ ''...'')
                            w1;
                    w2 = record_event (OpenedRead target_file) w1a
                in case (text_files w1a target_file, write_error w2 target_file) of
                     (None, _) \<Rightarrow>
                       Exit 1 (print (''Error: Could not clean symbols file. ''
                                      @ no_such_file target_file) w1a)
                   | (Some raw, Some err) \<Rightarrow>
                       Exit 1 (print (''Error: Could not clean symbols file. '' @ err) w2)
                   | (Some raw, None) \<Rightarrow>
                     (let new_lines = clean_lines (readlines raw) in
                       Return (print ''Removed Carbon variants from symbols file.''
                         (record_event (Rewrote target_file)
                           (w2\<lparr>text_files :=
                             (text_files w2)(target_file \<mapsto> concat new_lines)\<rparr>)))))))"

text \<open>Lines 134 to 168.\<close>

definition remove_cmd :: "world \<Rightarrow> outcome" where
  "remove_cmd w0 =
     (let w = print ''--- Starting Carbon Layout Uninstallation ---'' w0;
          target_file = path_join XKB_SYMBOLS_DIR TARGET_SYMBOL_FILE_NAME
      in case clean_symbols target_file w of
           Exit c w1 \<Rightarrow> Exit c w1
         | Return w1 \<Rightarrow>
             (case modify_xkb_rules Remove w1 of
                Exit c w2 \<Rightarrow> Exit c w2
              | Return w2 \<Rightarrow>
                  Return (print ''To apply changes, please log out and log back in.''
                    (print ([LF] @ ''--- Uninstallation Complete ---'') w2))))"

text \<open>
  Lines 171 to 187, with the flag that \<^verbatim>\<open>argparse\<close> has read; the result is the exit
  status of the process and the world it leaves.
\<close>

definition main :: "env \<Rightarrow> action \<Rightarrow> world \<Rightarrow> nat \<times> world" where
  "main e action w =
     (if euid e \<noteq> 0 then
        (1, print ''Error: This script must be run with root privileges.'' w)
      else
        (let r = (case action of Install \<Rightarrow> install e w | Remove \<Rightarrow> remove_cmd w)
         in (exit_code r, final r)))"

section \<open>Concrete inputs\<close>

text \<open>
  Small files and worlds on which the theorems below are run. \<open>carbon_block\<close> is a
  managed block of two lines; \<open>fr_block\<close> is a block of another layout.
\<close>

definition carbon_header_line :: string where
  \<open>carbon_header_line = ''xkb_symbols "carbon" {'' @ [LF]\<close>

definition fr_header_line :: string where
  \<open>fr_header_line = ''xkb_symbols "fr" {'' @ [LF]\<close>

definition closing_line :: string where
  "closing_line = ''};'' @ [LF]"

definition commented_closing_line :: string where
  "commented_closing_line = ''}; // carbon'' @ [LF]"

definition carbon_block :: string where
  "carbon_block = carbon_header_line @ closing_line"

definition fr_block :: string where
  "fr_block = fr_header_line @ closing_line"

definition symbols_path :: string where
  "symbols_path = ''/usr/share/X11/xkb/symbols/us''"

definition evdev_path :: string where
  "evdev_path = ''/usr/share/X11/xkb/rules/evdev.xml''"

definition base_path :: string where
  "base_path = ''/usr/share/X11/xkb/rules/base.xml''"

definition blob_path :: string where
  "blob_path = ''/opt/carbon/carbon-as-variant''"

definition root_env :: env where
  "root_env = \<lparr>euid = 0, script_dir = ''/opt/carbon''\<rparr>"

text \<open>A clock that advances by one second at each of its first readings.\<close>

definition clock0 :: "nat \<Rightarrow> string" where
  "clock0 k =
     (if k < 6 then
        [''20240101_120000'', ''20240101_120001'', ''20240101_120002'',
         ''20240101_120003'', ''20240101_120004'', ''20240101_120005''] ! k
      else ''20240101_120100'')"

text \<open>
  A registry with one layout list that holds the layout \<^verbatim>\<open>us\<close>, without a variant
  list and without any white space between the elements; the same with the layout
  \<^verbatim>\<open>fr\<close> only.
\<close>

definition layout_named :: "string \<Rightarrow> element list \<Rightarrow> element" where
  "layout_named name others =
     Element ''layout'' [] None None
       (Element ''configItem'' [] None None [Element ''name'' [] (Some name) None []] # others)"

definition registry :: "element list \<Rightarrow> element" where
  "registry layouts =
     Element ''xkbConfigRegistry'' [(''version'', ''1.1'')] None None
       [Element ''layoutList'' [] None None layouts]"

definition us_registry :: element where
  "us_registry = registry [layout_named ''us'' []]"

definition fr_registry :: element where
  "fr_registry = registry [layout_named ''fr'' []]"

text \<open>A world whose first rules file does not parse.\<close>

definition malformed_world :: world where
  "malformed_world =
     \<lparr>text_files = [blob_path \<mapsto> carbon_block, symbols_path \<mapsto> fr_block],
      xml_files = [evdev_path \<mapsto> Malformed ''no element found: line 1, column 0'',
                   base_path \<mapsto> Document us_registry],
      write_error = Map.empty, stdout = [],
      timestamps = clock0, ticks = 0, journal = []\<rparr>"

text \<open>A symbols file whose managed block ends in a closing line that carries a comment.\<close>

definition commented_world :: world where
  "commented_world =
     \<lparr>text_files = [symbols_path \<mapsto> carbon_header_line @ commented_closing_line @ fr_block],
      xml_files = Map.empty, write_error = Map.empty, stdout = [],
      timestamps = clock0, ticks = 0, journal = []\<rparr>"

section \<open>Notions used in the statements\<close>

text \<open>
  A child that the loop of lines 73 to 76 collects for a descriptor id: a \<^verbatim>\<open>variant\<close>
  whose \<^verbatim>\<open>configItem/name\<close> text is the id.
\<close>

definition is_variant_named :: "string \<Rightarrow> element \<Rightarrow> bool" where
  "is_variant_named name c \<longleftrightarrow> tag c = ''variant'' \<and> name_is c name"

definition skip_world :: world where
  "skip_world =
     \<lparr>text_files = [blob_path \<mapsto> carbon_block, symbols_path \<mapsto> fr_block],
      xml_files = [evdev_path \<mapsto> Document fr_registry, base_path \<mapsto> Document us_registry],
      write_error = Map.empty, stdout = [],
      timestamps = clock0, ticks = 0, journal = []\<rparr>"

definition skip_message :: "string \<Rightarrow> string" where
  "skip_message xml_file =
     ''Error: Base layout '' @ quoted BASE_LAYOUT @ '' not found in '' @ xml_file @ ''.''"

definition no_symbols_world :: world where
  "no_symbols_world =
     \<lparr>text_files = [blob_path \<mapsto> carbon_block],
      xml_files = [evdev_path \<mapsto> Document us_registry],
      write_error = Map.empty, stdout = [],
      timestamps = clock0, ticks = 0, journal = []\<rparr>"

definition us_world :: world where
  "us_world =
     \<lparr>text_files = [blob_path \<mapsto> carbon_block, symbols_path \<mapsto> fr_block],
      xml_files = [evdev_path \<mapsto> Document us_registry],
      write_error = Map.empty, stdout = [],
      timestamps = clock0, ticks = 0, journal = []\<rparr>"

text \<open>
  Two trees are the same up to pretty-printing when they agree once every text and
  tail that is missing or all white space has been set to missing.
\<close>

fun unindent :: "element \<Rightarrow> element" where
  "unindent (Element t a x y cs) =
     Element t a (if blank x then None else x) (if blank y then None else y) (map unindent cs)"

text \<open>
  The order of backups, reads and writes in a journal. The target files are the
  symbols file and the rules files. \<open>disciplined done pending evs\<close> reads the events
  in order: \<open>done\<close> lists the files copied so far and \<open>pending\<close> is the file whose
  copy was the last copy or write. A copy must be the copy of a target file, go to
  a path \<^verbatim>\<open><original>.bak_...\<close> and be the first copy of that file; a target file is
  opened for reading, and a file is appended to or rewritten, only when it is the
  pending one, that is, when its copy is the nearest earlier copy or write.
\<close>

definition target_files :: "string list" where
  "target_files = symbols_path # XKB_RULES_FILES"

definition is_backup_of :: "string \<Rightarrow> string \<Rightarrow> bool" where
  "is_backup_of p b \<longleftrightarrow> prefix (p @ ''.bak_'') b"

fun disciplined :: "string list \<Rightarrow> string option \<Rightarrow> file_event list \<Rightarrow> bool" where
  "disciplined done pending [] = True"
| "disciplined done pending (Copied p b # evs) =
     (p \<in> set target_files \<and> is_backup_of p b \<and> p \<notin> set done
      \<and> disciplined (p # done) (Some p) evs)"
| "disciplined done pending (OpenedRead p # evs) =
     ((p \<in> set target_files \<longrightarrow> pending = Some p) \<and> disciplined done pending evs)"
| "disciplined done pending (Created p # evs) = disciplined done None evs"
| "disciplined done pending (Appended p # evs) = (pending = Some p \<and> disciplined done None evs)"
| "disciplined done pending (Rewrote p # evs) = (pending = Some p \<and> disciplined done None evs)"

text \<open>
  The file an event copies; a file is backed up in a journal when an event of the
  journal copies it.
\<close>

fun copied_file :: "file_event \<Rightarrow> string list" where
  "copied_file (Copied p b) = [p]"
| "copied_file (OpenedRead p) = []"
| "copied_file (Created p) = []"
| "copied_file (Appended p) = []"
| "copied_file (Rewrote p) = []"

definition backed_up :: "file_event list \<Rightarrow> string \<Rightarrow> bool" where
  "backed_up evs p \<longleftrightarrow> p \<in> set (concat (map copied_file evs))"

text \<open>The paths an event reads, and the backups a journal makes.\<close>

fun read_paths :: "file_event \<Rightarrow> string list" where
  "read_paths (Copied p b) = [p]"
| "read_paths (OpenedRead p) = [p]"
| "read_paths (Created p) = []"
| "read_paths (Appended p) = []"
| "read_paths (Rewrote p) = []"

fun backup_made :: "file_event \<Rightarrow> string list" where
  "backup_made (Copied p b) = [b]"
| "backup_made (OpenedRead p) = []"
| "backup_made (Created p) = []"
| "backup_made (Appended p) = []"
| "backup_made (Rewrote p) = []"

definition backups_never_read :: "file_event list \<Rightarrow> bool" where
  "backups_never_read evs \<longleftrightarrow>
     (\<forall>b \<in> set (concat (map backup_made evs)). \<forall>ev \<in> set evs. b \<notin> set (read_paths ev))"

text \<open>The journal segments that the step on one rules file, and the work on the symbols file, can leave.\<close>

definition rules_journals :: "string \<Rightarrow> string \<Rightarrow> file_event list list" where
  "rules_journals f ts =
     [[], [Copied f (backup_path_of f ts)],
      [Copied f (backup_path_of f ts), OpenedRead f],
      [Copied f (backup_path_of f ts), OpenedRead f, Rewrote f]]"

definition symbols_journals :: "string \<Rightarrow> string \<Rightarrow> string \<Rightarrow> file_event list list" where
  "symbols_journals src dst ts =
     [[], [Copied dst (backup_path_of dst ts)],
      [Copied dst (backup_path_of dst ts), OpenedRead src],
      [Copied dst (backup_path_of dst ts), OpenedRead src, Appended dst],
      [Copied dst (backup_path_of dst ts), OpenedRead src, Created dst],
      [OpenedRead src], [OpenedRead src, Created dst],
      [Copied dst (backup_path_of dst ts), OpenedRead dst],
      [Copied dst (backup_path_of dst ts), OpenedRead dst, Rewrote dst]]"

text \<open>
  The children of the variant list after the loop over the descriptors, on the
  children alone; and the variant list that the script works on in a document.
\<close>

definition reconciled_children :: "action \<Rightarrow> element list \<Rightarrow> element list" where
  "reconciled_children a cs =
     foldl (\<lambda>cs (name, description).
              filter (\<lambda>c. \<not> is_variant_named name c) cs
              @ (if a = Install then [new_variant name description] else []))
       cs VARIANTS_TO_INSTALL"

definition is_managed_variant :: "element \<Rightarrow> bool" where
  "is_managed_variant c \<longleftrightarrow> list_ex (\<lambda>ident. is_variant_named ident c) managed_ids"





text \<open>
  The first descendant that satisfies a predicate, in document order, with its
  path; the predicate of lines 57 and 58; and the texts of all
  \<^verbatim>\<open>configItem/name\<close> grandchildren, the first of which line 57 reads.
\<close>

definition first_descendant ::
  "(element \<Rightarrow> bool) \<Rightarrow> nat \<Rightarrow> element list \<Rightarrow> (nat list \<times> element) option" where
  "first_descendant P i cs = List.find (\<lambda>(p, d). P d) (iter_children i cs)"

definition is_base_layout :: "element \<Rightarrow> bool" where
  "is_base_layout d \<longleftrightarrow> tag d = ''layout'' \<and> name_is d BASE_LAYOUT"

definition name_texts :: "element \<Rightarrow> string option list" where
  "name_texts e =
     concat (map (\<lambda>c. map text_of (findall c ''name'')) (findall e ''configItem''))"

text \<open>
  The document that a pass leaves in a rules file that held \<open>root\<close>: the file is left
  alone when the base layout is not found, and holds the changed tree, indented,
  otherwise.
\<close>

definition rewritten :: "action \<Rightarrow> element \<Rightarrow> element" where
  "rewritten a root =
     (case patch_tree a root of None \<Rightarrow> root | Some (root1, out) \<Rightarrow> indent root1)"

definition rewritten_file :: "action \<Rightarrow> xml_file \<Rightarrow> xml_file" where
  "rewritten_file a content =
     (case content of
        Document root \<Rightarrow> Document (rewritten a root)
      | Malformed m \<Rightarrow> Malformed m)"

text \<open>
  A world in which a run meets no error: every write succeeds, the source file of
  the blocks is there, the symbols file is not an XML document, and no rules file
  is malformed.
\<close>

definition runs_clean :: "env \<Rightarrow> world \<Rightarrow> bool" where
  "runs_clean e w \<longleftrightarrow>
     write_error w = Map.empty
     \<and> text_files w (path_join (script_dir e) SYMBOL_FILE_NAME) \<noteq> None
     \<and> xml_files w symbols_path = None
     \<and> list_all (\<lambda>g. case xml_files w g of Some (Malformed m) \<Rightarrow> False | _ \<Rightarrow> True)
           XKB_RULES_FILES"

text \<open>The tree in memory after lines 55 to 94; the tree that was read when line 62 skips.\<close>

definition patched :: "action \<Rightarrow> element \<Rightarrow> element" where
  "patched a root = (case patch_tree a root of None \<Rightarrow> root | Some (root1, out) \<Rightarrow> root1)"






section \<open>Facts about the text primitives\<close>

lemma names_managed_id_eq: "names_managed_id line = is_carbon_header line"
  by (simp add: names_managed_id_def is_carbon_header_def managed_ids_def
      VARIANTS_TO_INSTALL_def header_of_def)

lemma header_not_closing: "is_carbon_header line \<Longrightarrow> \<not> starts_closing line"
  by (auto simp: is_carbon_header_def starts_closing_def startswith_def prefix_def)


section \<open>The scanner\<close>

lemma foldl_scan_line_outside:
  "foldl scan_line (False, acc) lines =
     (fst (foldl scan_line (False, []) lines), acc @ snd (foldl scan_line (False, []) lines))
   \<and> foldl scan_line (True, acc) lines =
     (fst (foldl scan_line (True, []) lines), acc @ snd (foldl scan_line (True, []) lines))"
proof (induction lines arbitrary: acc)
  case Nil
  show ?case by simp
next
  case (Cons l ls)
  have F: "foldl scan_line (False, xs) ls =
      (fst (foldl scan_line (False, []) ls), xs @ snd (foldl scan_line (False, []) ls))" for xs
    using Cons.IH [of xs] by blast
  have T: "foldl scan_line (True, xs) ls =
      (fst (foldl scan_line (True, []) ls), xs @ snd (foldl scan_line (True, []) ls))" for xs
    using Cons.IH [of xs] by blast
  show ?case
    by (simp add: Let_def F [of "acc @ [l]"] F [of "[l]"] F [of acc] T [of acc])
qed

lemma scan_state_machine:
  "snd (foldl scan_line (False, []) lines) = remove_blocks starts_closing Outside lines
   \<and> snd (foldl scan_line (True, []) lines) = remove_blocks starts_closing InsideManagedBlock lines"
proof (induction lines)
  case Nil
  show ?case by simp
next
  case (Cons l ls)
  have F: "foldl scan_line (False, xs) ls =
      (fst (foldl scan_line (False, []) ls), xs @ snd (foldl scan_line (False, []) ls))" for xs
    using foldl_scan_line_outside [of xs ls] by blast
  show ?case
    using Cons.IH header_not_closing [of l]
    by (auto simp: Let_def names_managed_id_eq F [of "[l]"])
qed

lemma clean_lines_state_machine:
  "clean_lines lines = remove_blocks starts_closing Outside lines"
  using scan_state_machine [of lines] by (simp add: clean_lines_def scan_lines_def)


section \<open>What the scripts leave in the text files\<close>

lemma target_path: "path_join XKB_SYMBOLS_DIR TARGET_SYMBOL_FILE_NAME = symbols_path"
  by (simp add: path_join_def startswith_def XKB_SYMBOLS_DIR_def TARGET_SYMBOL_FILE_NAME_def
      symbols_path_def)

lemma backup_path_neq_self: "backup_path_of p ts \<noteq> p"
  by (simp add: backup_path_of_def)

lemma rules_backup_not_target:
  "f \<in> set XKB_RULES_FILES \<Longrightarrow> backup_path_of f ts \<noteq> symbols_path"
  by (auto simp: XKB_RULES_FILES_def backup_path_of_def symbols_path_def)

lemma rules_file_step_text_files:
  assumes "\<And>ts. backup_path_of f ts \<noteq> q"
  shows "text_files (final (rules_file_step a f w)) q = text_files w q"
proof -
  have neq: "q \<noteq> backup_path_of f ts" for ts using assms by blast
  show ?thesis
    by (auto simp: rules_file_step_def backup_file_def Let_def print_def record_event_def neq
        split: option.splits outcome.splits xml_file.splits)
qed

lemma rules_loop_text_files:
  assumes "\<And>f ts. f \<in> set fs \<Longrightarrow> backup_path_of f ts \<noteq> q"
  shows "text_files (final (rules_loop a fs w)) q = text_files w q"
  using assms
proof (induction fs arbitrary: w)
  case Nil
  show ?case by simp
next
  case (Cons f fs)
  have step: "text_files (final (rules_file_step a f w)) q = text_files w q"
    using Cons.prems by (intro rules_file_step_text_files) simp
  show ?case
  proof (cases "rules_file_step a f w")
    case (Exit c w1)
    then show ?thesis using step by simp
  next
    case (Return w1)
    then show ?thesis using step Cons.IH [of w1] Cons.prems by simp
  qed
qed

lemma modify_xkb_rules_target:
  "text_files (final (modify_xkb_rules a w)) symbols_path = text_files w symbols_path"
  unfolding modify_xkb_rules_def
  by (rule rules_loop_text_files) (rule rules_backup_not_target)

lemma clean_symbols_writable:
  assumes "text_files w p = Some raw" and "write_error w = Map.empty"
  shows "\<exists>w1. clean_symbols p w = Return w1 \<and>
           text_files w1 p = Some (concat (clean_lines (readlines raw))) \<and>
           write_error w1 = Map.empty"
  using assms
  by (simp add: clean_symbols_def backup_file_def file_exists_def Let_def print_def
      record_event_def backup_path_neq_self)

lemma remove_cmd_symbols_file:
  assumes "text_files w symbols_path = Some raw" and "write_error w = Map.empty"
  shows "text_files (final (remove_cmd w)) symbols_path =
           Some (concat (clean_lines (readlines raw)))"
proof -
  let ?w = "print ''--- Starting Carbon Layout Uninstallation ---'' w"
  have "text_files ?w symbols_path = Some raw" "write_error ?w = Map.empty"
    using assms by (simp_all add: print_def)
  then obtain w1 where w1: "clean_symbols symbols_path ?w = Return w1"
    "text_files w1 symbols_path = Some (concat (clean_lines (readlines raw)))"
    using clean_symbols_writable by blast
  have "text_files (final (modify_xkb_rules Remove w1)) symbols_path = text_files w1 symbols_path"
    by (rule modify_xkb_rules_target)
  moreover have "remove_cmd w =
      (case modify_xkb_rules Remove w1 of
         Exit c w2 \<Rightarrow> Exit c w2
       | Return w2 \<Rightarrow>
           Return (print ''To apply changes, please log out and log back in.''
             (print ([LF] @ ''--- Uninstallation Complete ---'') w2)))"
    by (simp add: remove_cmd_def Let_def target_path w1)
  ultimately have "text_files (final (remove_cmd w)) symbols_path = text_files w1 symbols_path"
    by (cases "modify_xkb_rules Remove w1") (simp_all add: print_def)
  then show ?thesis
    by (simp add: w1)
qed

lemmas text_eval =
  LF_def CR_def isspace_def strip_def startswith_def is_carbon_header_def starts_closing_def
  equals_closing_def names_managed_id_def managed_ids_def header_of_def VARIANTS_TO_INSTALL_def
  readlines_def read_text_def

lemmas example_lines =
  carbon_header_line_def fr_header_line_def closing_line_def commented_closing_line_def
  carbon_block_def fr_block_def

section \<open>Claim C2: the block-removal scan\<close>

text \<open>
  C2, as the specification states it: the scan drops a managed header line and
  every line after it up to and including the next line whose trimmed content
  \<^emph>\<open>equals\<close> the closing marker, and keeps all other lines in order. The script
  tests whether the trimmed line \<^emph>\<open>starts with\<close> the marker. On a managed block
  whose closing line carries a comment the two differ: the script ends the block at
  that line and keeps the block of another layout that follows, where the scan of
  the specification goes on dropping until the closing line of that other block.
\<close>

theorem remove_scan_equals_closing_counterexample:
  "clean_lines [carbon_header_line, commented_closing_line, fr_header_line, closing_line]
     = [fr_header_line, closing_line]
   \<and> remove_blocks equals_closing Outside
       [carbon_header_line, commented_closing_line, fr_header_line, closing_line] = []"
  by (simp add: clean_lines_def scan_lines_def text_eval example_lines)

text \<open>
  C2, amended: for every sequence of lines the scan of the script is the scan of the
  specification with the closing line recognised by prefix (a line whose trimmed
  content starts with \<^verbatim>\<open>};\<close>), and \<^verbatim>\<open>remove()\<close> replaces the whole content
  of the symbols file by the lines that scan keeps, when the file exists and can be
  written.
\<close>

theorem remove_scan_state_machine:
  assumes "text_files w symbols_path = Some raw" and "write_error w = Map.empty"
  shows "clean_lines lines = remove_blocks starts_closing Outside lines
    \<and> text_files (final (remove_cmd w)) symbols_path =
        Some (concat (remove_blocks starts_closing Outside (readlines raw)))"
  using remove_cmd_symbols_file [OF assms] clean_lines_state_machine by simp

theorem remove_scan_state_machine_witness:
  "text_files (final (remove_cmd commented_world)) symbols_path = Some fr_block
   \<and> clean_lines [carbon_header_line, commented_closing_line, fr_header_line, closing_line]
       = [fr_header_line, closing_line]"
proof -
  have 1: "text_files commented_world symbols_path =
      Some (carbon_header_line @ commented_closing_line @ fr_block)"
    by (simp add: commented_world_def)
  have 2: "write_error commented_world = Map.empty"
    by (simp add: commented_world_def)
  show ?thesis
    using remove_scan_state_machine [OF 1 2,
        of "[carbon_header_line, commented_closing_line, fr_header_line, closing_line]"]
    by (simp add: text_eval example_lines)
qed

section \<open>Reconciling one descriptor\<close>

lemma set_children_same [simp]: "set_children (children e) e = e"
  by (cases e) (simp add: set_children_def)

lemma set_children_sel [simp]:
  "children (set_children cs e) = cs" "tag (set_children cs e) = tag e"
  "text_of (set_children cs e) = text_of e" "tail_of (set_children cs e) = tail_of e"
  "attrib (set_children cs e) = attrib e"
  by (simp_all add: set_children_def)

lemma set_children_twice [simp]: "set_children cs (set_children ds e) = set_children cs e"
  by (simp add: set_children_def)

lemma existing_variants_Some:
  "existing_variants (Some vl) name = filter (is_variant_named name) (children vl)"
  by (auto simp: existing_variants_def findall_def is_variant_named_def intro!: filter_cong)

text \<open>
  Removing, one by one, the first child equal to each collected element removes
  exactly the collected children.
\<close>

lemma foldl_remove1_filter:
  "\<forall>x \<in> set pre. \<not> P x \<Longrightarrow>
   foldl (\<lambda>ys v. remove1 v ys) (pre @ xs) (filter P xs) = pre @ filter (\<lambda>x. \<not> P x) xs"
proof (induction xs arbitrary: pre)
  case Nil
  show ?case by simp
next
  case (Cons x xs)
  show ?case
  proof (cases "P x")
    case True
    then have "x \<notin> set pre" using Cons.prems by blast
    then have "remove1 x (pre @ x # xs) = pre @ xs"
      by (simp add: remove1_append)
    then show ?thesis using True Cons.IH [OF Cons.prems] by simp
  next
    case False
    then have "\<forall>y \<in> set (pre @ [x]). \<not> P y" using Cons.prems by simp
    from Cons.IH [OF this] show ?thesis using False by simp
  qed
qed

lemma remove_children_foldl:
  "remove_children vs vl = set_children (foldl (\<lambda>ys v. remove1 v ys) (children vl) vs) vl"
  unfolding remove_children_def
  by (induction vs arbitrary: vl) simp_all

lemma remove_children_existing:
  "remove_children (existing_variants (Some vl) name) vl =
     set_children (filter (\<lambda>c. \<not> is_variant_named name c) (children vl)) vl"
  using foldl_remove1_filter [of "[]" "is_variant_named name" "children vl"]
  by (simp add: remove_children_foldl existing_variants_Some)

lemma name_is_new_variant [simp]: "name_is (new_variant n d) m \<longleftrightarrow> n = m"
  by (simp add: name_is_def find_config_name_def find_path_def findall_def new_variant_def)

lemma is_variant_named_new_variant [simp]: "is_variant_named m (new_variant n d) \<longleftrightarrow> n = m"
  by (simp add: is_variant_named_def) (simp add: new_variant_def)

lemma reconcile_Remove_Some:
  "reconcile Remove (Some vl, out) (name, description) =
     (Some (set_children (filter (\<lambda>c. \<not> is_variant_named name c) (children vl)) vl),
      out @ map (\<lambda>v. ''  - Removed variant '' @ quoted name @ ''.'')
              (filter (is_variant_named name) (children vl)))"
  by (simp add: remove_children_existing) (simp add: existing_variants_Some)

lemma reconcile_Install_Some:
  "reconcile Install (Some vl, out) (name, description) =
     (Some (set_children (filter (\<lambda>c. \<not> is_variant_named name c) (children vl)
                          @ [new_variant name description]) vl),
      out @ [''  + Added variant '' @ quoted name @ ''.''])"
  by (simp add: remove_children_existing append_child_def)

lemma reconcile_None:
  "reconcile Remove (None, out) d = (None, out)" "reconcile Install (None, out) d = (None, out @ [''  + Added variant '' @ quoted (fst d) @ ''.''])"
  by (cases d; simp add: existing_variants_def)+

declare reconcile.simps [simp del]

section \<open>Claim C5: at most one entry per descriptor\<close>

text \<open>
  C5: whatever children the variant list has, duplicates included, after the loop
  body has run for a descriptor id the children that the script itself would
  collect for that id (\<^verbatim>\<open>variant\<close> children whose \<^verbatim>\<open>configItem/name\<close> is the id) are none
  on remove and exactly one on install; on install that one is the fresh element,
  it is the last child, its \<^verbatim>\<open>configItem/name\<close> is the id and its
  \<^verbatim>\<open>configItem/description\<close> is the display name.
\<close>

theorem reconcile_leaves_at_most_one:
  "existing_variants (fst (reconcile Remove (Some vl, out) (ident, display))) ident = []
   \<and> existing_variants (fst (reconcile Install (Some vl, out) (ident, display))) ident
       = [new_variant ident display]
   \<and> (\<exists>vl'. fst (reconcile Install (Some vl, out) (ident, display)) = Some vl'
         \<and> children vl' \<noteq> [] \<and> last (children vl') = new_variant ident display)
   \<and> map_option text_of (find_path (new_variant ident display) ''configItem'' ''name'')
       = Some (Some ident)
   \<and> map_option text_of (find_path (new_variant ident display) ''configItem'' ''description'')
       = Some (Some display)"
  by (simp add: reconcile_Remove_Some reconcile_Install_Some existing_variants_Some)
     (simp add: find_path_def findall_def new_variant_def)

section \<open>Backups, the rules pass and the whole run\<close>

lemma rules_files: "XKB_RULES_FILES = [evdev_path, base_path]"
  by (simp add: XKB_RULES_FILES_def evdev_path_def base_path_def)

lemma rules_paths_distinct:
  "evdev_path \<noteq> base_path" "backup_path_of evdev_path ts \<noteq> base_path"
  "backup_path_of base_path ts \<noteq> evdev_path"
  "backup_path_of symbols_path ts \<noteq> evdev_path"
  "backup_path_of symbols_path ts \<noteq> base_path"
  by (simp_all add: evdev_path_def base_path_def symbols_path_def backup_path_of_def)

lemma print_sel [simp]:
  "text_files (print m w) = text_files w" "xml_files (print m w) = xml_files w"
  "write_error (print m w) = write_error w" "timestamps (print m w) = timestamps w"
  "ticks (print m w) = ticks w" "journal (print m w) = journal w"
  "stdout (print m w) = stdout w @ [m]"
  by (simp_all add: print_def)

lemma record_event_sel [simp]:
  "text_files (record_event ev w) = text_files w" "xml_files (record_event ev w) = xml_files w"
  "write_error (record_event ev w) = write_error w"
  "timestamps (record_event ev w) = timestamps w"
  "ticks (record_event ev w) = ticks w" "journal (record_event ev w) = journal w @ [ev]"
  "stdout (record_event ev w) = stdout w"
  by (simp_all add: record_event_def)

lemma file_exists_print [simp]: "file_exists (print m w) p = file_exists w p"
  by (simp add: file_exists_def)

lemma backup_file_exit: "backup_file f w = Exit c w' \<Longrightarrow> c = 1"
  by (auto simp: backup_file_def Let_def split: if_splits option.splits)

lemma backup_file_xml_files:
  "xml_files (final (backup_file f w)) q =
     (if file_exists w f \<and> write_error w (backup_path_of f (timestamps w (ticks w))) = None
         \<and> q = backup_path_of f (timestamps w (ticks w))
      then xml_files w f else xml_files w q)"
  by (simp add: backup_file_def Let_def print_def record_event_def split: option.splits)

lemma backup_file_xml_self [simp]: "xml_files (final (backup_file f w)) f = xml_files w f"
  by (simp add: backup_file_xml_files backup_path_neq_self [symmetric])

lemma backup_file_text_self [simp]: "text_files (final (backup_file f w)) f = text_files w f"
  by (simp add: backup_file_def Let_def print_def record_event_def backup_path_neq_self [symmetric]
      split: option.splits)

lemma backup_file_write_error [simp]:
  "write_error (final (backup_file f w)) = write_error w"
  by (simp add: backup_file_def Let_def print_def record_event_def split: option.splits)

lemma backup_file_Return:
  assumes "backup_file f w = Return w0"
  shows "xml_files w0 f = xml_files w f" "text_files w0 f = text_files w f"
    "write_error w0 = write_error w"
  using assms
  by (auto simp: backup_file_def Let_def backup_path_neq_self [symmetric]
      split: if_splits option.splits)

text \<open>The file parsed after the backup is the file found before it.\<close>

lemma rules_file_step_present:
  assumes "xml_files w f = Some content"
  shows "rules_file_step a f w =
     (case backup_file f (print ([LF] @ ''Processing: '' @ f) w) of
        Exit c w1 \<Rightarrow> Exit c w1
      | Return w0 \<Rightarrow>
          (case content of
             Malformed e \<Rightarrow>
               Exit 1 (print (''Error parsing XML file '' @ f @ '': '' @ e)
                        (record_event (OpenedRead f) w0))
           | Document root \<Rightarrow>
               (case patch_tree a root of
                  None \<Rightarrow>
                    Return (print (''Error: Base layout '' @ quoted BASE_LAYOUT
                                   @ '' not found in '' @ f @ ''.'')
                             (record_event (OpenedRead f) w0))
                | Some (root1, out) \<Rightarrow>
                    (case write_error w f of
                       Some e \<Rightarrow>
                         Exit 1 (print (''An unexpected error occurred: '' @ e)
                           (record_event (OpenedRead f) w0\<lparr>stdout := stdout w0 @ out\<rparr>))
                     | None \<Rightarrow>
                         Return (record_event (Rewrote f)
                           (record_event (OpenedRead f) w0
                              \<lparr>stdout := stdout w0 @ out,
                               xml_files := (xml_files w0)(f \<mapsto> Document (indent root1))\<rparr>))))))"
proof (cases "backup_file f (print ([LF] @ ''Processing: '' @ f) w)")
  case (Exit c w1)
  then show ?thesis using assms by (simp add: rules_file_step_def)
next
  case (Return w0)
  have x: "xml_files w0 f = Some content"
    using backup_file_Return(1) [OF Return] assms by simp
  have e: "write_error w0 = write_error w"
    using backup_file_Return(3) [OF Return] by simp
  show ?thesis
    using assms Return x e
    by (simp add: rules_file_step_def Let_def record_event_def
        split: xml_file.splits option.splits prod.splits)
qed


lemma rules_file_step_absent:
  "xml_files w f = None \<Longrightarrow>
   rules_file_step a f w = Return (print (''Warning: Rules file not found, skipping: '' @ f) w)"
  by (simp add: rules_file_step_def)

lemma backup_file_cases:
  obtains (absent) "\<not> file_exists w f" "backup_file f w = Return w"
  | (failed) w1 where "file_exists w f" "backup_file f w = Exit 1 w1"
      "write_error w (backup_path_of f (timestamps w (ticks w))) \<noteq> None"
  | (copied) "file_exists w f"
      "write_error w (backup_path_of f (timestamps w (ticks w))) = None"
      "backup_file f w =
         Return (print (''  -> Created backup: '' @ backup_path_of f (timestamps w (ticks w)))
           (record_event (Copied f (backup_path_of f (timestamps w (ticks w))))
             (w\<lparr>ticks := Suc (ticks w),
                text_files := (text_files w)
                  (backup_path_of f (timestamps w (ticks w)) := text_files w f),
                xml_files := (xml_files w)
                  (backup_path_of f (timestamps w (ticks w)) := xml_files w f)\<rparr>)))"
  by (cases "file_exists w f"; cases "write_error w (backup_path_of f (timestamps w (ticks w)))")
     (auto simp: backup_file_def Let_def)

lemma rules_file_step_exit: "rules_file_step a f w = Exit c w' \<Longrightarrow> c = 1"
proof (cases "xml_files w f")
  case None
  then show "rules_file_step a f w = Exit c w' \<Longrightarrow> c = 1"
    by (simp add: rules_file_step_absent)
next
  case (Some content)
  show "rules_file_step a f w = Exit c w' \<Longrightarrow> c = 1"
    unfolding rules_file_step_present [OF Some]
    by (auto dest: backup_file_exit split: outcome.splits xml_file.splits option.splits)
qed

lemma rules_file_step_write_error [simp]:
  "write_error (final (rules_file_step a f w)) = write_error w"
proof (cases "xml_files w f")
  case None
  then show ?thesis by (simp add: rules_file_step_absent)
next
  case (Some content)
  show ?thesis
    unfolding rules_file_step_present [OF Some]
    by (auto dest: backup_file_Return(3) split: outcome.splits xml_file.splits option.splits)
      (use backup_file_write_error [of f "print ([LF] @ ''Processing: '' @ f) w"] in simp)
qed


lemma rules_file_step_xml_other:
  assumes "q \<noteq> f" and "\<And>ts. q \<noteq> backup_path_of f ts"
  shows "xml_files (final (rules_file_step a f w)) q = xml_files w q"
proof (cases "xml_files w f")
  case None
  then show ?thesis by (simp add: rules_file_step_absent)
next
  case (Some content)
  have b: "xml_files (final (backup_file f (print m w))) q = xml_files w q" for m
    using assms(2) by (simp add: backup_file_xml_files)
  show ?thesis
    unfolding rules_file_step_present [OF Some]
    using b [of "[LF] @ ''Processing: '' @ f"] assms(1)
    by (auto split: outcome.splits xml_file.splits option.splits)
qed

lemma rules_file_step_malformed:
  assumes "xml_files w f = Some (Malformed msg)"
  shows "\<exists>w'. rules_file_step a f w = Exit 1 w' \<and>
           (write_error w (backup_path_of f (timestamps w (ticks w))) = None \<longrightarrow>
              stdout w' = stdout w @ [[LF] @ ''Processing: '' @ f,
                 ''  -> Created backup: '' @ backup_path_of f (timestamps w (ticks w)),
                 ''Error parsing XML file '' @ f @ '': '' @ msg])"
proof -
  have ex: "file_exists (print ([LF] @ ''Processing: '' @ f) w) f"
    using assms by (simp add: file_exists_def)
  show ?thesis
    using ex
    by (cases f "print ([LF] @ ''Processing: '' @ f) w" rule: backup_file_cases)
       (auto simp: rules_file_step_present [OF assms])
qed

lemma modify_xkb_rules_two:
  "modify_xkb_rules a w =
     (case rules_file_step a evdev_path w of
        Exit c w1 \<Rightarrow> Exit c w1
      | Return w1 \<Rightarrow> rules_file_step a base_path w1)"
  by (simp add: modify_xkb_rules_def rules_files split: outcome.splits)

lemma modify_xkb_rules_malformed:
  assumes "f \<in> set XKB_RULES_FILES" and "xml_files w f = Some (Malformed msg)"
  shows "\<exists>w'. modify_xkb_rules a w = Exit 1 w'"
proof (cases "rules_file_step a evdev_path w")
  case (Exit c w1)
  then show ?thesis
    using rules_file_step_exit [OF Exit] by (simp add: modify_xkb_rules_two)
next
  case (Return w1)
  then have "f \<noteq> evdev_path"
    using rules_file_step_malformed [OF assms(2), of a] by auto
  then have f: "f = base_path" using assms(1) by (simp add: rules_files)
  have "xml_files (final (rules_file_step a evdev_path w)) base_path = xml_files w base_path"
    by (rule rules_file_step_xml_other)
       (simp_all add: rules_paths_distinct(1) [symmetric] rules_paths_distinct(2) [symmetric])
  then have "xml_files w1 base_path = Some (Malformed msg)" using assms(2) f Return by simp
  from rules_file_step_malformed [OF this, of a] show ?thesis
    using Return by (auto simp: modify_xkb_rules_two)
qed

lemma clean_symbols_exit: "clean_symbols p w = Exit c w' \<Longrightarrow> c = 1"
  by (auto simp: clean_symbols_def Let_def dest: backup_file_exit
      split: option.splits outcome.splits)

lemma clean_symbols_xml_files:
  assumes "\<And>ts. q \<noteq> backup_path_of p ts"
  shows "xml_files (final (clean_symbols p w)) q = xml_files w q"
proof -
  have b: "xml_files (final (backup_file p w)) q = xml_files w q"
    using assms by (simp add: backup_file_xml_files)
  show ?thesis
    using b by (auto simp: clean_symbols_def Let_def split: option.splits outcome.splits)
qed

lemma append_symbols_exit: "append_symbols src dst w = Exit c w' \<Longrightarrow> c = 1"
  by (auto simp: append_symbols_def Let_def dest: backup_file_exit
      split: option.splits outcome.splits)

lemma append_symbols_xml_files:
  assumes "\<And>ts. q \<noteq> backup_path_of dst ts"
  shows "xml_files (final (append_symbols src dst w)) q = xml_files w q"
proof -
  have b: "xml_files (final (backup_file dst w)) q = xml_files w q"
    using assms by (simp add: backup_file_xml_files)
  show ?thesis
    using b by (auto simp: append_symbols_def Let_def split: option.splits outcome.splits)
qed


lemma remove_cmd_malformed:
  assumes "f \<in> set XKB_RULES_FILES" and "xml_files w f = Some (Malformed msg)"
  shows "\<exists>w'. remove_cmd w = Exit 1 w'"
proof -
  let ?w = "print ''--- Starting Carbon Layout Uninstallation ---'' w"
  have away: "f \<noteq> backup_path_of symbols_path ts" for ts
    using assms(1) rules_paths_distinct(4,5) [of ts] by (auto simp: rules_files)
  show ?thesis
  proof (cases "clean_symbols symbols_path ?w")
    case (Exit c w1)
    then show ?thesis
      using clean_symbols_exit [OF Exit] by (simp add: remove_cmd_def target_path)
  next
    case (Return w1)
    have "xml_files (final (clean_symbols symbols_path ?w)) f = xml_files ?w f"
      by (rule clean_symbols_xml_files) (rule away)
    then have "xml_files w1 f = Some (Malformed msg)"
      using assms(2) Return by simp
    from modify_xkb_rules_malformed [OF assms(1) this, of Remove]
    show ?thesis using Return by (auto simp: remove_cmd_def target_path)
  qed
qed

lemma install_malformed:
  assumes "f \<in> set XKB_RULES_FILES" and "xml_files w f = Some (Malformed msg)"
  shows "\<exists>w'. install e w = Exit 1 w'"
proof -
  let ?w = "print ''--- Starting Carbon Layout Installation ---'' w"
  let ?src = "path_join (script_dir e) SYMBOL_FILE_NAME"
  have away: "f \<noteq> backup_path_of symbols_path ts" for ts
    using assms(1) rules_paths_distinct(4,5) [of ts] by (auto simp: rules_files)
  show ?thesis
  proof (cases "text_files ?w ?src")
    case None
    then show ?thesis by (simp add: install_def)
  next
    case (Some present)
    show ?thesis
    proof (cases "append_symbols ?src symbols_path ?w")
      case (Exit c w1)
      then show ?thesis
        using append_symbols_exit [OF Exit] Some by (simp add: install_def target_path)
    next
      case (Return w4)
      have "xml_files (final (append_symbols ?src symbols_path ?w)) f = xml_files ?w f"
        by (rule append_symbols_xml_files) (rule away)
      then have "xml_files w4 f = Some (Malformed msg)"
        using assms(2) Return by simp
      from modify_xkb_rules_malformed [OF assms(1) this, of Install]
      show ?thesis using Some Return by (auto simp: install_def target_path)
    qed
  qed
qed

section \<open>Claim C9: a rules file that does not parse ends the run\<close>

text \<open>
  C9: when a rules file of \<^verbatim>\<open>XKB_RULES_FILES\<close> does not parse, the process ends with
  status 1, whichever action was asked for and whatever else the world holds. Where
  the loop over the rules files reaches that file, it stops there: the world it
  leaves is the one the step on that file leaves, so no later file is looked at,
  and, the backup having been written, the last line printed is the parse error
  with its cause.
\<close>

theorem malformed_rules_file_is_fatal:
  assumes "f \<in> set XKB_RULES_FILES" and "xml_files w f = Some (Malformed msg)"
  shows "fst (main e a w) = 1
    \<and> exit_code (rules_loop a (f # rest) w) = 1
    \<and> final (rules_loop a (f # rest) w) = final (rules_file_step a f w)
    \<and> (write_error w (backup_path_of f (timestamps w (ticks w))) = None \<longrightarrow>
         stdout (final (rules_loop a (f # rest) w)) =
           stdout w @ [[LF] @ ''Processing: '' @ f,
             ''  -> Created backup: '' @ backup_path_of f (timestamps w (ticks w)),
             ''Error parsing XML file '' @ f @ '': '' @ msg])"
proof -
  from rules_file_step_malformed [OF assms(2), of a]
  obtain w' where step: "rules_file_step a f w = Exit 1 w'"
    and out: "write_error w (backup_path_of f (timestamps w (ticks w))) = None \<longrightarrow>
       stdout w' = stdout w @ [[LF] @ ''Processing: '' @ f,
         ''  -> Created backup: '' @ backup_path_of f (timestamps w (ticks w)),
         ''Error parsing XML file '' @ f @ '': '' @ msg]"
    by (elim exE conjE)
  have main: "fst (main e a w) = 1"
  proof (cases a)
    case Install
    then show ?thesis
      using install_malformed [OF assms, of e] by (auto simp: main_def)
  next
    case Remove
    then show ?thesis
      using remove_cmd_malformed [OF assms] by (auto simp: main_def)
  qed
  show ?thesis using main step out by simp
qed

theorem malformed_rules_file_is_fatal_witness:
  "fst (main root_env Remove malformed_world) = 1
   \<and> exit_code (rules_loop Remove [evdev_path, base_path] malformed_world) = 1
   \<and> stdout (final (rules_loop Remove [evdev_path, base_path] malformed_world)) =
       [[LF] @ ''Processing: '' @ evdev_path,
        ''  -> Created backup: '' @ evdev_path @ ''.bak_20240101_120000'',
        ''Error parsing XML file '' @ evdev_path @ '': no element found: line 1, column 0'']"
proof -
  have 1: "evdev_path \<in> set XKB_RULES_FILES"
    by (simp add: rules_files)
  have 2: "xml_files malformed_world evdev_path =
      Some (Malformed ''no element found: line 1, column 0'')"
    by (simp add: malformed_world_def rules_paths_distinct)
  have 3: "write_error malformed_world
      (backup_path_of evdev_path (timestamps malformed_world (ticks malformed_world))) = None"
    by (simp add: malformed_world_def)
  have 4: "timestamps malformed_world (ticks malformed_world) = ''20240101_120000''"
    by (simp add: malformed_world_def clock0_def)
  have 5: "stdout malformed_world = []"
    by (simp add: malformed_world_def)
  note fatal = malformed_rules_file_is_fatal [OF 1 2, of root_env Remove "[base_path]"]
  have a: "fst (main root_env Remove malformed_world) = 1"
    using fatal by (rule conjunct1)
  have b: "exit_code (rules_loop Remove [evdev_path, base_path] malformed_world) = 1"
    using fatal by (elim conjE)
  have c: "stdout (final (rules_loop Remove [evdev_path, base_path] malformed_world)) =
      stdout malformed_world @ [[LF] @ ''Processing: '' @ evdev_path,
        ''  -> Created backup: '' @ backup_path_of evdev_path
           (timestamps malformed_world (ticks malformed_world)),
        ''Error parsing XML file '' @ evdev_path @ '': '' @ ''no element found: line 1, column 0'']"
    using fatal 3 by (elim conjE impE)
  show ?thesis
    using a b c by (simp add: 4 5 backup_path_of_def del: rules_loop.simps)
qed

section \<open>A rules file that parses\<close>

lemma rules_file_step_spec:
  assumes "write_error w (backup_path_of f (timestamps w (ticks w))) = None"
    and "patch_tree a root \<noteq> None \<longrightarrow> write_error w f = None"
    and "xml_files w f = Some (Document root)"
  shows "\<exists>w'. rules_file_step a f w = Return w' \<and> write_error w' = write_error w
    \<and> xml_files w' f =
         Some (Document (case patch_tree a root of None \<Rightarrow> root | Some (root1, out) \<Rightarrow> indent root1))
    \<and> stdout w' =
         stdout w @ [[LF] @ ''Processing: '' @ f,
           ''  -> Created backup: '' @ backup_path_of f (timestamps w (ticks w))]
         @ (case patch_tree a root of None \<Rightarrow> [skip_message f] | Some (root1, out) \<Rightarrow> out)
    \<and> xml_files w' (backup_path_of f (timestamps w (ticks w))) = Some (Document root)
    \<and> (\<forall>q. q \<noteq> f \<longrightarrow> q \<noteq> backup_path_of f (timestamps w (ticks w)) \<longrightarrow>
           xml_files w' q = xml_files w q)
    \<and> timestamps w' = timestamps w \<and> ticks w' = Suc (ticks w)
    \<and> journal w' =
         journal w @ [Copied f (backup_path_of f (timestamps w (ticks w))), OpenedRead f]
         @ (case patch_tree a root of None \<Rightarrow> [] | Some (root1, out) \<Rightarrow> [Rewrote f])"
proof -
  let ?w = "print ([LF] @ ''Processing: '' @ f) w"
  have ex: "file_exists ?w f"
    using assms(3) by (simp add: file_exists_def)
  have ok: "write_error ?w (backup_path_of f (timestamps ?w (ticks ?w))) = None"
    using assms(1) by simp
  show ?thesis
  proof (cases f ?w rule: backup_file_cases)
    case absent
    then show ?thesis using ex by simp
  next
    case (failed w1)
    then show ?thesis using ok by simp
  next
    case copied
    show ?thesis
      unfolding rules_file_step_present [OF assms(3)] copied(3)
      using assms backup_path_neq_self [of f "timestamps w (ticks w)"]
      by (auto simp: skip_message_def split: option.splits prod.splits)
  qed
qed

lemma rules_file_step_ok:
  assumes "write_error w = Map.empty" and "xml_files w f = Some (Document root)"
  shows "\<exists>w'. rules_file_step a f w = Return w' \<and> write_error w' = Map.empty
    \<and> xml_files w' f =
         Some (Document (case patch_tree a root of None \<Rightarrow> root | Some (root1, out) \<Rightarrow> indent root1))
    \<and> stdout w' =
         stdout w @ [[LF] @ ''Processing: '' @ f,
           ''  -> Created backup: '' @ backup_path_of f (timestamps w (ticks w))]
         @ (case patch_tree a root of None \<Rightarrow> [skip_message f] | Some (root1, out) \<Rightarrow> out)
    \<and> xml_files w' (backup_path_of f (timestamps w (ticks w))) = Some (Document root)
    \<and> (\<forall>q. q \<noteq> f \<longrightarrow> q \<noteq> backup_path_of f (timestamps w (ticks w)) \<longrightarrow>
           xml_files w' q = xml_files w q)
    \<and> timestamps w' = timestamps w \<and> ticks w' = Suc (ticks w)
    \<and> journal w' =
         journal w @ [Copied f (backup_path_of f (timestamps w (ticks w))), OpenedRead f]
         @ (case patch_tree a root of None \<Rightarrow> [] | Some (root1, out) \<Rightarrow> [Rewrote f])"
  using rules_file_step_spec [of w f a root] assms by simp

lemma backup_file_stdout: "\<exists>out. stdout (final (backup_file f w)) = stdout w @ out"
  by (cases f w rule: backup_file_cases) (auto simp: backup_file_def Let_def split: option.splits)

lemma rules_file_step_stdout: "\<exists>out. stdout (final (rules_file_step a f w)) = stdout w @ out"
proof (cases "xml_files w f")
  case None
  then show ?thesis by (simp add: rules_file_step_absent)
next
  case (Some content)
  obtain out where "stdout (final (backup_file f (print ([LF] @ ''Processing: '' @ f) w))) =
      stdout w @ [[LF] @ ''Processing: '' @ f] @ out"
    using backup_file_stdout [of f "print ([LF] @ ''Processing: '' @ f) w"] by auto
  then show ?thesis
    unfolding rules_file_step_present [OF Some]
    by (auto split: outcome.splits xml_file.splits option.splits)
qed

lemma patch_tree_None: "patch_tree a root = None \<longleftrightarrow> find_base_layout root = None"
  by (simp add: patch_tree_def split: option.splits)

lemma append_symbols_ok:
  assumes "write_error w = Map.empty" and "text_files w src = Some blob"
    and "xml_files w dst = None"
  shows "\<exists>w4 blob'. append_symbols src dst w = Return w4 \<and> write_error w4 = Map.empty
    \<and> text_files w4 dst =
         Some ((case text_files w dst of None \<Rightarrow> [] | Some c \<Rightarrow> c) @ [LF, LF] @ read_text blob')
    \<and> (src \<noteq> backup_path_of dst (timestamps w (ticks w)) \<longrightarrow> blob' = blob)
    \<and> (src \<noteq> dst \<longrightarrow> text_files w4 src \<noteq> None)
    \<and> (\<forall>q. (\<forall>ts. q \<noteq> backup_path_of dst ts) \<longrightarrow> xml_files w4 q = xml_files w q)"
proof (cases dst w rule: backup_file_cases)
  case absent
  then have "text_files w dst = None" by (simp add: file_exists_def)
  then show ?thesis
    using assms absent(2) by (auto simp: append_symbols_def Let_def)
next
  case (failed w1)
  then show ?thesis using assms(1) by simp
next
  case copied
  then obtain c where c: "text_files w dst = Some c"
    using assms(3) by (auto simp: file_exists_def)
  show ?thesis
    unfolding append_symbols_def copied(3)
    using assms c backup_path_neq_self [of dst "timestamps w (ticks w)"]
    by (auto simp: Let_def)
qed

lemma source_not_symbols: "path_join d SYMBOL_FILE_NAME \<noteq> symbols_path"
proof
  assume "path_join d SYMBOL_FILE_NAME = symbols_path"
  then have "last (path_join d SYMBOL_FILE_NAME) = last symbols_path" by simp
  then show False
    by (simp add: path_join_def startswith_def SYMBOL_FILE_NAME_def symbols_path_def
        split: if_splits)
qed

lemma modify_xkb_rules_ok:
  assumes "write_error w = Map.empty"
    and "\<forall>g \<in> set XKB_RULES_FILES. \<forall>m. xml_files w g \<noteq> Some (Malformed m)"
  shows "\<exists>w1 w2. rules_file_step a evdev_path w = Return w1
    \<and> rules_file_step a base_path w1 = Return w2
    \<and> modify_xkb_rules a w = Return w2
    \<and> write_error w1 = Map.empty \<and> write_error w2 = Map.empty
    \<and> xml_files w1 base_path = xml_files w base_path
    \<and> xml_files w2 evdev_path = xml_files w1 evdev_path"
proof -
  have step: "\<exists>w'. rules_file_step a f v = Return w' \<and> write_error w' = Map.empty"
    if v1: "write_error v = Map.empty" and v2: "\<forall>m. xml_files v f \<noteq> Some (Malformed m)" for f v
  proof (cases "xml_files v f")
    case None
    then show ?thesis using v1 by (simp add: rules_file_step_absent)
  next
    case (Some content)
    then have "\<exists>root. xml_files v f = Some (Document root)"
      using v2 by (cases content) auto
    then obtain root where "xml_files v f = Some (Document root)" ..
    from rules_file_step_ok [OF v1 this, of a] show ?thesis by blast
  qed
  obtain w1 where w1: "rules_file_step a evdev_path w = Return w1" "write_error w1 = Map.empty"
    using step [of w evdev_path] assms by (auto simp: rules_files)
  have b1: "xml_files (final (rules_file_step a evdev_path w)) base_path = xml_files w base_path"
    by (rule rules_file_step_xml_other)
       (simp_all add: rules_paths_distinct(1) [symmetric] rules_paths_distinct(2) [symmetric])
  then have b: "xml_files w1 base_path = xml_files w base_path" using w1 by simp
  then have "\<forall>m. xml_files w1 base_path \<noteq> Some (Malformed m)"
    using assms(2) by (simp add: rules_files)
  then obtain w2 where w2: "rules_file_step a base_path w1 = Return w2" "write_error w2 = Map.empty"
    using step [of w1 base_path] w1(2) by auto
  have "xml_files (final (rules_file_step a base_path w1)) evdev_path = xml_files w1 evdev_path"
    by (rule rules_file_step_xml_other)
       (simp_all add: rules_paths_distinct(1) rules_paths_distinct(3) [symmetric])
  then have "xml_files w2 evdev_path = xml_files w1 evdev_path" using w2 by simp
  then show ?thesis
    using w1 w2 b by (simp add: modify_xkb_rules_two)
qed

section \<open>Claim C8: a rules document without the base layout\<close>

text \<open>
  C8: let a rules file of \<^verbatim>\<open>XKB_RULES_FILES\<close> parse to a document in which no \<^verbatim>\<open>layout\<close>
  descendant has the \<^verbatim>\<open>configItem/name\<close> text \<^verbatim>\<open>us\<close>. Then the install step on that file,
  once its backup is written, returns with the document as it was, prints the line
  \<^verbatim>\<open>Error: Base layout 'us' not found in <file>.\<close> after the two progress lines, and the
  loop goes on with the remaining files. And when nothing else is fatal (the script
  runs as root, the source file is there, nothing is unwritable, the symbols path
  is not an XML file, no rules file is malformed) the whole install ends with
  status 0, the document is unchanged at the end, and the skip line is in the output.
\<close>

theorem base_layout_absent_is_skipped:
  assumes "f \<in> set XKB_RULES_FILES" and "xml_files w f = Some (Document root)"
    and "list_all (\<lambda>(p, layout). \<not> name_is layout BASE_LAYOUT)
           (findall_descendants root ''layout'')"
  shows "(write_error w (backup_path_of f (timestamps w (ticks w))) = None \<longrightarrow>
      (\<exists>w'. rules_file_step Install f w = Return w'
         \<and> xml_files w' f = Some (Document root)
         \<and> stdout w' = stdout w @ [[LF] @ ''Processing: '' @ f,
              ''  -> Created backup: '' @ backup_path_of f (timestamps w (ticks w)),
              skip_message f]
         \<and> rules_loop Install (f # rest) w = rules_loop Install rest w'))
    \<and> (euid e = 0 \<and> text_files w (path_join (script_dir e) SYMBOL_FILE_NAME) \<noteq> None
        \<and> write_error w = Map.empty \<and> xml_files w symbols_path = None
        \<and> (\<forall>g \<in> set XKB_RULES_FILES. \<forall>m. xml_files w g \<noteq> Some (Malformed m)) \<longrightarrow>
        fst (main e Install w) = 0
        \<and> xml_files (snd (main e Install w)) f = Some (Document root)
        \<and> skip_message f \<in> set (stdout (snd (main e Install w))))"
proof -
  have none: "patch_tree Install root = None"
    using assms(3) unfolding patch_tree_None find_base_layout_def
    by (auto simp: find_None_iff list_all_iff)
  have skip: "\<exists>w'. rules_file_step Install f v = Return w' \<and> write_error w' = write_error v
      \<and> xml_files w' f = Some (Document root)
      \<and> stdout w' = stdout v @ [[LF] @ ''Processing: '' @ f,
            ''  -> Created backup: '' @ backup_path_of f (timestamps v (ticks v)),
            skip_message f]"
    if "write_error v (backup_path_of f (timestamps v (ticks v))) = None"
      and "xml_files v f = Some (Document root)" for v
    using rules_file_step_spec [of v f Install root] that none by auto
  have part1: "write_error w (backup_path_of f (timestamps w (ticks w))) = None \<longrightarrow>
      (\<exists>w'. rules_file_step Install f w = Return w'
         \<and> xml_files w' f = Some (Document root)
         \<and> stdout w' = stdout w @ [[LF] @ ''Processing: '' @ f,
              ''  -> Created backup: '' @ backup_path_of f (timestamps w (ticks w)),
              skip_message f]
         \<and> rules_loop Install (f # rest) w = rules_loop Install rest w')"
    using skip [of w] assms(2) by auto
  have part2: "fst (main e Install w) = 0
        \<and> xml_files (snd (main e Install w)) f = Some (Document root)
        \<and> skip_message f \<in> set (stdout (snd (main e Install w)))"
    if root: "euid e = 0" and src: "text_files w (path_join (script_dir e) SYMBOL_FILE_NAME) \<noteq> None"
      and wr: "write_error w = Map.empty" and sym: "xml_files w symbols_path = None"
      and wf: "\<forall>g \<in> set XKB_RULES_FILES. \<forall>m. xml_files w g \<noteq> Some (Malformed m)"
  proof -
    let ?w = "print ''--- Starting Carbon Layout Installation ---'' w"
    let ?src = "path_join (script_dir e) SYMBOL_FILE_NAME"
    obtain blob where blob: "text_files ?w ?src = Some blob" using src by auto
    have "\<exists>w4. append_symbols ?src symbols_path ?w = Return w4 \<and> write_error w4 = Map.empty
        \<and> (\<forall>q. (\<forall>ts. q \<noteq> backup_path_of symbols_path ts) \<longrightarrow> xml_files w4 q = xml_files ?w q)"
      using append_symbols_ok [of ?w ?src blob symbols_path] blob wr sym by auto
    then obtain w4 where w4: "append_symbols ?src symbols_path ?w = Return w4"
      "write_error w4 = Map.empty"
      "\<forall>q. (\<forall>ts. q \<noteq> backup_path_of symbols_path ts) \<longrightarrow> xml_files w4 q = xml_files ?w q"
      by blast
    have keep: "xml_files w4 g = xml_files w g" if "g \<in> set XKB_RULES_FILES" for g
      using w4(3) that rules_paths_distinct(4,5) [symmetric] by (auto simp: rules_files)
    have wf4: "\<forall>g \<in> set XKB_RULES_FILES. \<forall>m. xml_files w4 g \<noteq> Some (Malformed m)"
      using wf keep by simp
    from modify_xkb_rules_ok [OF w4(2) wf4, of Install]
    obtain w1 w2 where steps: "rules_file_step Install evdev_path w4 = Return w1"
      "rules_file_step Install base_path w1 = Return w2"
      "modify_xkb_rules Install w4 = Return w2"
      "write_error w1 = Map.empty" "write_error w2 = Map.empty"
      "xml_files w1 base_path = xml_files w4 base_path"
      "xml_files w2 evdev_path = xml_files w1 evdev_path"
      by blast
    have run: "install e w = Return
        (print ''To apply changes, please log out and log back in.''
          (print ([LF] @ ''--- Installation Complete ---'') w2))"
      using blob w4(1) steps(3) by (simp add: install_def target_path)
    have f4: "xml_files w4 f = Some (Document root)"
      using keep [OF assms(1)] assms(2) by simp
    have "xml_files w2 f = Some (Document root) \<and> skip_message f \<in> set (stdout w2)"
    proof (cases "f = evdev_path")
      case True
      from skip [of w4] f4 w4(2) True steps(1)
      have a: "xml_files w1 evdev_path = Some (Document root)"
        "skip_message evdev_path \<in> set (stdout w1)" by auto
      obtain out where "stdout w2 = stdout w1 @ out"
        using rules_file_step_stdout [of Install base_path w1] steps(2) by auto
      then show ?thesis using a steps(7) True by simp
    next
      case False
      then have fb: "f = base_path" using assms(1) by (simp add: rules_files)
      have "xml_files w1 f = Some (Document root)" using steps(6) f4 fb by simp
      from skip [of w1] this steps(4) fb steps(2)
      show ?thesis by auto
    qed
    then show ?thesis
      using run root by (simp add: main_def)
  qed
  show ?thesis using part1 part2 by blast
qed

lemma example_paths_distinct:
  "blob_path \<noteq> symbols_path" "evdev_path \<noteq> symbols_path" "base_path \<noteq> symbols_path"
  "evdev_path \<noteq> base_path" "blob_path \<noteq> evdev_path" "blob_path \<noteq> base_path"
  by (simp_all add: blob_path_def symbols_path_def evdev_path_def base_path_def)

lemma root_env_source: "path_join (script_dir root_env) SYMBOL_FILE_NAME = blob_path"
  by (simp add: path_join_def startswith_def root_env_def SYMBOL_FILE_NAME_def blob_path_def)

lemmas tree_eval =
  findall_descendants_def findall_def find_path_def find_config_name_def name_is_def
  BASE_LAYOUT_def registry_def layout_named_def us_registry_def fr_registry_def

theorem base_layout_absent_is_skipped_witness:
  "fst (main root_env Install skip_world) = 0
   \<and> xml_files (snd (main root_env Install skip_world)) evdev_path = Some (Document fr_registry)
   \<and> skip_message evdev_path \<in> set (stdout (snd (main root_env Install skip_world)))
   \<and> (\<exists>w'. rules_file_step Install evdev_path skip_world = Return w'
         \<and> xml_files w' evdev_path = Some (Document fr_registry)
         \<and> stdout w' = [[LF] @ ''Processing: '' @ evdev_path,
              ''  -> Created backup: '' @ evdev_path @ ''.bak_20240101_120000'',
              skip_message evdev_path]
         \<and> rules_loop Install [evdev_path, base_path] skip_world =
             rules_loop Install [base_path] w')"
proof -
  have 1: "evdev_path \<in> set XKB_RULES_FILES"
    by (simp add: rules_files)
  have 2: "xml_files skip_world evdev_path = Some (Document fr_registry)"
    by (simp add: skip_world_def example_paths_distinct)
  have 3: "list_all (\<lambda>(p, layout). \<not> name_is layout BASE_LAYOUT)
      (findall_descendants fr_registry ''layout'')"
    by (simp add: tree_eval)
  have 4: "write_error skip_world
      (backup_path_of evdev_path (timestamps skip_world (ticks skip_world))) = None"
    by (simp add: skip_world_def)
  have 5: "euid root_env = 0
      \<and> text_files skip_world (path_join (script_dir root_env) SYMBOL_FILE_NAME) \<noteq> None
      \<and> write_error skip_world = Map.empty \<and> xml_files skip_world symbols_path = None
      \<and> (\<forall>g \<in> set XKB_RULES_FILES. \<forall>m. xml_files skip_world g \<noteq> Some (Malformed m))"
    by (simp add: root_env_source rules_files)
       (simp add: skip_world_def root_env_def example_paths_distinct
          example_paths_distinct [symmetric])
  have 6: "timestamps skip_world (ticks skip_world) = ''20240101_120000''"
    "stdout skip_world = []"
    by (simp_all add: skip_world_def clock0_def)
  note skipped = base_layout_absent_is_skipped [OF 1 2 3, of "[base_path]" root_env]
  have a: "fst (main root_env Install skip_world) = 0
      \<and> xml_files (snd (main root_env Install skip_world)) evdev_path = Some (Document fr_registry)
      \<and> skip_message evdev_path \<in> set (stdout (snd (main root_env Install skip_world)))"
    using skipped 5 by blast
  have b: "\<exists>w'. rules_file_step Install evdev_path skip_world = Return w'
         \<and> xml_files w' evdev_path = Some (Document fr_registry)
         \<and> stdout w' = stdout skip_world @ [[LF] @ ''Processing: '' @ evdev_path,
              ''  -> Created backup: '' @ backup_path_of evdev_path
                 (timestamps skip_world (ticks skip_world)),
              skip_message evdev_path]
         \<and> rules_loop Install [evdev_path, base_path] skip_world =
             rules_loop Install [base_path] w'"
    using skipped 4 by blast
  show ?thesis
    using a b by (simp add: 6 backup_path_of_def del: rules_loop.simps)
qed

section \<open>Claim C10: removing when the symbols file is missing\<close>

lemma rules_backup_not_symbols_backup:
  "f \<in> set XKB_RULES_FILES \<Longrightarrow> backup_path_of f ts \<noteq> backup_path_of symbols_path ts'"
  by (auto simp: XKB_RULES_FILES_def backup_path_of_def symbols_path_def)

text \<open>
  C10: when the symbols file does not exist, \<^verbatim>\<open>remove()\<close> is the opening line followed
  by the rules pass and nothing else: no error line, no backup, no write. The
  symbols file still does not exist afterwards, no path \<^verbatim>\<open>us.bak_<timestamp>\<close> has
  changed, and when the script runs as root, nothing is unwritable and no rules file
  is malformed, the process ends with status 0.
\<close>

theorem remove_without_symbols_file:
  assumes "text_files w symbols_path = None"
  shows "remove_cmd w =
      (case modify_xkb_rules Remove (print ''--- Starting Carbon Layout Uninstallation ---'' w) of
         Exit c w2 \<Rightarrow> Exit c w2
       | Return w2 \<Rightarrow>
           Return (print ''To apply changes, please log out and log back in.''
             (print ([LF] @ ''--- Uninstallation Complete ---'') w2)))
    \<and> text_files (final (remove_cmd w)) symbols_path = None
    \<and> (\<forall>ts. text_files (final (remove_cmd w)) (backup_path_of symbols_path ts) =
            text_files w (backup_path_of symbols_path ts))
    \<and> (euid e = 0 \<and> write_error w = Map.empty
        \<and> (\<forall>g \<in> set XKB_RULES_FILES. \<forall>m. xml_files w g \<noteq> Some (Malformed m)) \<longrightarrow>
        fst (main e Remove w) = 0)"
proof -
  let ?w = "print ''--- Starting Carbon Layout Uninstallation ---'' w"
  have run: "remove_cmd w =
      (case modify_xkb_rules Remove ?w of
         Exit c w2 \<Rightarrow> Exit c w2
       | Return w2 \<Rightarrow>
           Return (print ''To apply changes, please log out and log back in.''
             (print ([LF] @ ''--- Uninstallation Complete ---'') w2)))"
    using assms by (simp add: remove_cmd_def target_path clean_symbols_def)
  have frame: "text_files (final (modify_xkb_rules Remove ?w)) q = text_files w q"
    if "\<And>f ts. f \<in> set XKB_RULES_FILES \<Longrightarrow> backup_path_of f ts \<noteq> q" for q
    unfolding modify_xkb_rules_def
    using rules_loop_text_files [of XKB_RULES_FILES q Remove ?w] that by simp
  have same: "text_files (final (remove_cmd w)) q = text_files (final (modify_xkb_rules Remove ?w)) q"
    for q
    unfolding run by (cases "modify_xkb_rules Remove ?w") simp_all
  have a: "text_files (final (remove_cmd w)) symbols_path = None"
    using frame [of symbols_path] same [of symbols_path] assms rules_backup_not_target by simp
  have b: "text_files (final (remove_cmd w)) (backup_path_of symbols_path ts) =
      text_files w (backup_path_of symbols_path ts)" for ts
    using frame [of "backup_path_of symbols_path ts"] same [of "backup_path_of symbols_path ts"]
      rules_backup_not_symbols_backup by simp
  have c: "fst (main e Remove w) = 0"
    if "euid e = 0" and wr: "write_error w = Map.empty"
      and wf: "\<forall>g \<in> set XKB_RULES_FILES. \<forall>m. xml_files w g \<noteq> Some (Malformed m)"
  proof -
    have "\<exists>w2. modify_xkb_rules Remove ?w = Return w2"
      using modify_xkb_rules_ok [of ?w Remove] wr wf by auto
    then show ?thesis using that(1) run by (auto simp: main_def)
  qed
  show ?thesis using run a b c by blast
qed

theorem remove_without_symbols_file_witness:
  "fst (main root_env Remove no_symbols_world) = 0
   \<and> text_files (final (remove_cmd no_symbols_world)) symbols_path = None
   \<and> text_files (final (remove_cmd no_symbols_world)) (backup_path_of symbols_path ''20240101_120000'')
       = None"
proof -
  have 1: "text_files no_symbols_world symbols_path = None"
    by (simp add: no_symbols_world_def example_paths_distinct [symmetric])
  have 2: "euid root_env = 0 \<and> write_error no_symbols_world = Map.empty
      \<and> (\<forall>g \<in> set XKB_RULES_FILES. \<forall>m. xml_files no_symbols_world g \<noteq> Some (Malformed m))"
    by (simp add: rules_files)
       (simp add: no_symbols_world_def root_env_def example_paths_distinct)
  have 3: "text_files no_symbols_world (backup_path_of symbols_path ''20240101_120000'') = None"
    by (simp add: no_symbols_world_def blob_path_def symbols_path_def backup_path_of_def)
  note skipped = remove_without_symbols_file [OF 1, of root_env]
  have a: "fst (main root_env Remove no_symbols_world) = 0"
    using skipped 2 by blast
  have b: "text_files (final (remove_cmd no_symbols_world)) symbols_path = None"
    using skipped by blast
  have "\<forall>ts. text_files (final (remove_cmd no_symbols_world)) (backup_path_of symbols_path ts) =
      text_files no_symbols_world (backup_path_of symbols_path ts)"
    using skipped by blast
  then have c: "text_files (final (remove_cmd no_symbols_world))
      (backup_path_of symbols_path ''20240101_120000'') = None"
    using 3 by simp
  show ?thesis using a b c by simp
qed

section \<open>Trees up to pretty-printing, and paths\<close>

lemma strip_all_space: "\<forall>c \<in> set s. isspace c \<Longrightarrow> strip s = []"
proof -
  assume "\<forall>c \<in> set s. isspace c"
  then have "dropWhile isspace s = []" by (induction s) simp_all
  then show ?thesis unfolding strip_def by (simp only: rev.simps dropWhile.simps)
qed

lemma blank_indentation [simp]: "blank (Some (indentation n))"
proof -
  have "\<forall>c \<in> set (indentation n). isspace c"
    by (auto simp: indentation_def LF_def isspace_def split: if_splits)
  then show ?thesis by (simp add: blank_def strip_all_space)
qed

lemma unindent_sel [simp]:
  "tag (unindent e) = tag e" "attrib (unindent e) = attrib e"
  "children (unindent e) = map unindent (children e)"
  by (cases e; simp)+

lemma unindent_set_tail:
  "blank (tail_of c) \<Longrightarrow> blank t \<Longrightarrow> unindent (set_tail t c) = unindent c"
  by (cases c) (simp add: set_tail_def)

lemma unindent_dedent_last: "map unindent (dedent_last level cs) = map unindent cs"
proof (cases cs rule: rev_cases)
  case Nil
  then show ?thesis by (simp add: dedent_last_def)
next
  case (snoc earlier child)
  then show ?thesis by (simp add: dedent_last_def unindent_set_tail)
qed

lemma unindent_indent_children:
  "unindent (indent_children level e) = unindent e"
  "map unindent (indent_each child_level cs) = map unindent cs"
proof (induction level e and child_level cs rule: indent_children_indent_each.induct)
  case (1 level t a x y cs)
  then show ?case by (simp add: unindent_dedent_last)
next
  case (2 child_level)
  show ?case by simp
next
  case (3 child_level c cs)
  then show ?case by (simp add: Let_def unindent_set_tail)
qed

lemma unindent_indent: "unindent (indent tree) = unindent tree"
  by (simp add: indent_def unindent_indent_children)

text \<open>Paths.\<close>

lemma iter_subtree:
  "\<forall>(p, x) \<in> set (iter e). subtree e p = Some x"
  "\<forall>(p, x) \<in> set (iter_children i cs).
     \<exists>k q. p = (i + k) # q \<and> k < length cs \<and> subtree (cs ! k) q = Some x"
proof (induction e and i cs rule: iter_iter_children.induct)
  case (1 t a x y cs)
  then show ?case by fastforce
next
  case (2 i)
  show ?case by simp
next
  case (3 i c cs)
  show ?case
  proof (intro ballI, clarify)
    fix p x assume "(p, x) \<in> set (iter_children i (c # cs))"
    then consider (here) q where "p = i # q" "(q, x) \<in> set (iter c)"
      | (later) "(p, x) \<in> set (iter_children (Suc i) cs)"
      by auto
    then show "\<exists>k q. p = (i + k) # q \<and> k < length (c # cs) \<and> subtree ((c # cs) ! k) q = Some x"
    proof cases
      case here
      then have "subtree c q = Some x" using 3(1) by auto
      then show ?thesis using here(1) by (intro exI [of _ 0] exI [of _ q]) simp
    next
      case later
      then obtain k q where "p = (Suc i + k) # q" "k < length cs" "subtree (cs ! k) q = Some x"
        using 3(2) by fastforce
      then show ?thesis by (intro exI [of _ "Suc k"] exI [of _ q]) simp
    qed
  qed
qed

lemma find_base_layout_Some:
  assumes "find_base_layout root = Some (p, layout_node)"
  shows "subtree root p = Some layout_node" "tag layout_node = ''layout''"
    "name_is layout_node BASE_LAYOUT"
proof -
  from assms obtain i where i: "i < length (findall_descendants root ''layout'')"
      "findall_descendants root ''layout'' ! i = (p, layout_node)"
    and nm: "name_is layout_node BASE_LAYOUT"
    unfolding find_base_layout_def by (auto simp: find_Some_iff)
  from nth_mem [OF i(1)] have mem: "(p, layout_node) \<in> set (findall_descendants root ''layout'')"
    by (simp add: i(2))
  from mem have "(p, layout_node) \<in> set (iter_children 0 (children root))"
    and tg: "tag layout_node = ''layout''"
    by (auto simp: findall_descendants_def)
  then obtain k q where "p = k # q" "k < length (children root)"
    "subtree (children root ! k) q = Some layout_node"
    using iter_subtree(2) [of 0 "children root"] by fastforce
  then show "subtree root p = Some layout_node" by simp
  show "tag layout_node = ''layout''" by (rule tg)
  show "name_is layout_node BASE_LAYOUT" by (rule nm)
qed

lemma update_at_same:
  "subtree t p = Some l \<Longrightarrow> f l = l \<Longrightarrow> update_at p f t = t"
proof (induction p arbitrary: t)
  case Nil
  then show ?case by simp
next
  case (Cons i p)
  then show ?case by (auto split: if_splits)
qed

lemma subtree_update_at:
  "subtree t p = Some l \<Longrightarrow> subtree (update_at p f t) p = Some (f l)"
proof (induction p arbitrary: t)
  case Nil
  then show ?case by simp
next
  case (Cons i p)
  then show ?case by (auto split: if_splits)
qed


section \<open>Claim C6: removing where the base layout has no variant list\<close>

lemma first_index_None: "first_index P xs = None \<longleftrightarrow> (\<forall>x \<in> set xs. \<not> P x)"
  by (induction xs) auto

lemma patch_layout_Remove_no_list:
  assumes "findall layout_node ''variantList'' = []"
  shows "patch_layout Remove layout_node = (layout_node, [])"
proof -
  have "first_index (\<lambda>c. tag c = ''variantList'') (children layout_node) = None"
    using assms by (simp add: first_index_None findall_def filter_empty_conv)
  then show ?thesis
    by (simp add: patch_layout_def VARIANTS_TO_INSTALL_def reconcile_None)
qed

lemma patch_tree_Remove_no_list:
  assumes "find_base_layout root = Some (p, layout_node)"
    and "findall layout_node ''variantList'' = []"
  shows "patch_tree Remove root = Some (root, [])"
proof -
  have "update_at p (\<lambda>l. fst (patch_layout Remove l)) root = root"
    using find_base_layout_Some(1) [OF assms(1)] patch_layout_Remove_no_list [OF assms(2)]
    by (intro update_at_same [of root p layout_node]) simp_all
  then show ?thesis
    using assms patch_layout_Remove_no_list [OF assms(2)] by (simp add: patch_tree_def)
qed

text \<open>
  C6, amended: on remove, a document whose base layout has no \<^verbatim>\<open>variantList\<close> child is
  backed up, re-indented and written back; the tree that is written is the tree
  that was read up to white-space-only text and tails, nothing is removed from it,
  and only the two progress lines (processing, backup created) are printed.
\<close>

theorem remove_without_variant_list:
  assumes "xml_files w f = Some (Document root)"
    and "find_base_layout root = Some (p, layout_node)"
    and "findall layout_node ''variantList'' = []"
    and "write_error w (backup_path_of f (timestamps w (ticks w))) = None"
    and "write_error w f = None"
  shows "\<exists>w'. rules_file_step Remove f w = Return w'
    \<and> xml_files w' f = Some (Document (indent root))
    \<and> unindent (indent root) = unindent root
    \<and> stdout w' = stdout w @ [[LF] @ ''Processing: '' @ f,
         ''  -> Created backup: '' @ backup_path_of f (timestamps w (ticks w))]
    \<and> xml_files w' (backup_path_of f (timestamps w (ticks w))) = Some (Document root)
    \<and> journal w' = journal w @
         [Copied f (backup_path_of f (timestamps w (ticks w))), OpenedRead f, Rewrote f]"
  using rules_file_step_spec [of w f Remove root] assms(1,4,5)
    patch_tree_Remove_no_list [OF assms(2,3)]
  by (auto simp: unindent_indent)

lemma us_registry_base_layout:
  "find_base_layout us_registry = Some ([0, 0], layout_named ''us'' [])"
  by (simp add: find_base_layout_def tree_eval)

lemma us_world_facts:
  "xml_files us_world evdev_path = Some (Document us_registry)"
  "write_error us_world q = None"
  "timestamps us_world (ticks us_world) = ''20240101_120000''"
  "stdout us_world = []" "journal us_world = []"
  by (simp_all add: us_world_def clock0_def)

text \<open>
  C6, as the specification states it: on remove, a document whose base layout has no
  \<^verbatim>\<open>variantList\<close> is left untouched and reported as a no-op. The script has no such
  branch: with the variant list missing the loop of lines 70 to 94 does nothing, and
  lines 96 and 97 then indent the tree and write the file as for any other document.
  On a registry stored without white space between its elements the document that
  is written differs from the one that was read, the journal shows the rewrite,
  and the only lines printed are the two progress lines: nothing reports a no-op.
\<close>

theorem remove_without_variant_list_counterexample:
  "xml_files (final (rules_file_step Remove evdev_path us_world)) evdev_path
     \<noteq> xml_files us_world evdev_path
   \<and> stdout (final (rules_file_step Remove evdev_path us_world)) =
       [[LF] @ ''Processing: '' @ evdev_path,
        ''  -> Created backup: '' @ evdev_path @ ''.bak_20240101_120000'']
   \<and> journal (final (rules_file_step Remove evdev_path us_world)) =
       [Copied evdev_path (evdev_path @ ''.bak_20240101_120000''),
        OpenedRead evdev_path, Rewrote evdev_path]"
proof -
  have none: "findall (layout_named ''us'' []) ''variantList'' = []"
    by (simp add: findall_def layout_named_def)
  have pt: "patch_tree Remove us_registry = Some (us_registry, [])"
    using patch_tree_Remove_no_list [OF us_registry_base_layout none] .
  have "text_of (indent us_registry) \<noteq> text_of us_registry"
    by (simp add: indent_def us_registry_def registry_def blank_def)
  then have changed: "indent us_registry \<noteq> us_registry"
    by auto
  have bp: "backup_path_of evdev_path (timestamps us_world (ticks us_world)) =
      evdev_path @ ''.bak_20240101_120000''"
    by (simp add: us_world_facts(3) backup_path_of_def)
  from rules_file_step_spec [of us_world evdev_path Remove us_registry]
  obtain w' where w': "rules_file_step Remove evdev_path us_world = Return w'"
    "xml_files w' evdev_path = Some (Document (indent us_registry))"
    "stdout w' = stdout us_world @ [[LF] @ ''Processing: '' @ evdev_path,
        ''  -> Created backup: '' @ evdev_path @ ''.bak_20240101_120000'']"
    "journal w' = journal us_world @
        [Copied evdev_path (evdev_path @ ''.bak_20240101_120000''), OpenedRead evdev_path,
         Rewrote evdev_path]"
    unfolding pt bp by (auto simp: us_world_facts(1,2))
  show ?thesis
    unfolding w'(1) final.simps w' us_world_facts using changed by simp
qed

theorem remove_without_variant_list_witness:
  "\<exists>w'. rules_file_step Remove evdev_path us_world = Return w'
    \<and> xml_files w' evdev_path = Some (Document (indent us_registry))
    \<and> unindent (indent us_registry) = unindent us_registry
    \<and> stdout w' = [[LF] @ ''Processing: '' @ evdev_path,
         ''  -> Created backup: '' @ evdev_path @ ''.bak_20240101_120000'']
    \<and> xml_files w' (evdev_path @ ''.bak_20240101_120000'') = Some (Document us_registry)
    \<and> journal w' = [Copied evdev_path (evdev_path @ ''.bak_20240101_120000''),
         OpenedRead evdev_path, Rewrote evdev_path]"
proof -
  have none: "findall (layout_named ''us'' []) ''variantList'' = []"
    by (simp add: findall_def layout_named_def)
  have bp: "backup_path_of evdev_path (timestamps us_world (ticks us_world)) =
      evdev_path @ ''.bak_20240101_120000''"
    by (simp add: us_world_facts(3) backup_path_of_def)
  show ?thesis
    using remove_without_variant_list [OF us_world_facts(1) us_registry_base_layout none
        us_world_facts(2) us_world_facts(2)]
    unfolding bp us_world_facts(4,5) append_Nil .
qed

section \<open>The journal of a run\<close>

lemma rules_file_step_journal:
  "\<exists>ts. \<exists>S \<in> set (rules_journals f ts). journal (final (rules_file_step a f w)) = journal w @ S"
proof (cases "xml_files w f")
  case None
  then show ?thesis by (auto simp: rules_file_step_absent rules_journals_def)
next
  case (Some content)
  let ?w = "print ([LF] @ ''Processing: '' @ f) w"
  show ?thesis
  proof (cases f ?w rule: backup_file_cases)
    case absent
    then show ?thesis
      unfolding rules_file_step_present [OF Some] absent(2)
      using Some by (simp add: file_exists_def)
  next
    case (failed w1)
    have "journal w1 = journal w"
      using failed(2) by (auto simp: backup_file_def Let_def split: if_splits option.splits)
    then show ?thesis
      unfolding rules_file_step_present [OF Some] failed(2)
      by (auto simp: rules_journals_def)
  next
    case copied
    show ?thesis
      unfolding rules_file_step_present [OF Some] copied(3)
      by (rule exI [of _ "timestamps w (ticks w)"])
         (auto simp: rules_journals_def split: xml_file.splits option.splits)
  qed
qed

lemma backup_file_journal:
  "journal (final (backup_file f w)) = journal w \<or>
   journal (final (backup_file f w)) =
     journal w @ [Copied f (backup_path_of f (timestamps w (ticks w)))]"
  by (cases f w rule: backup_file_cases) (auto simp: backup_file_def Let_def split: option.splits)

lemma append_symbols_journal:
  "\<exists>ts. \<exists>S \<in> set (symbols_journals src dst ts).
     journal (final (append_symbols src dst w)) = journal w @ S"
proof (cases dst w rule: backup_file_cases)
  case absent
  then have "text_files w dst = None" by (simp add: file_exists_def)
  then show ?thesis
    unfolding append_symbols_def absent(2)
    by (auto simp: symbols_journals_def Let_def split: option.splits)
next
  case (failed w1)
  have "journal w1 = journal w"
    using failed(2) by (auto simp: backup_file_def Let_def split: if_splits option.splits)
  then show ?thesis
    unfolding append_symbols_def failed(2) by (auto simp: symbols_journals_def)
next
  case copied
  show ?thesis
    unfolding append_symbols_def copied(3)
    by (rule exI [of _ "timestamps w (ticks w)"])
       (auto simp: symbols_journals_def Let_def split: option.splits)
qed

lemma clean_symbols_journal:
  "\<exists>ts. \<exists>S \<in> set (symbols_journals src p ts).
     journal (final (clean_symbols p w)) = journal w @ S"
proof (cases "text_files w p")
  case None
  then show ?thesis by (auto simp: clean_symbols_def symbols_journals_def)
next
  case (Some present)
  show ?thesis
  proof (cases p w rule: backup_file_cases)
    case absent
    then show ?thesis using Some by (simp add: file_exists_def)
  next
    case (failed w1)
    have "journal w1 = journal w"
      using failed(2) by (auto simp: backup_file_def Let_def split: if_splits option.splits)
    then show ?thesis
      using Some unfolding clean_symbols_def failed(2) by (auto simp: symbols_journals_def)
  next
    case copied
    show ?thesis
      using Some unfolding clean_symbols_def copied(3)
      by (intro exI [of _ "timestamps w (ticks w)"])
         (auto simp: symbols_journals_def Let_def split: option.splits)
  qed
qed

lemma modify_xkb_rules_journal:
  "\<exists>t2 t3. \<exists>S2 \<in> set (rules_journals evdev_path t2). \<exists>S3 \<in> set (rules_journals base_path t3).
     journal (final (modify_xkb_rules a w)) = journal w @ S2 @ S3"
proof -
  have goal: ?thesis
    if "S2 \<in> set (rules_journals evdev_path t2)" "S3 \<in> set (rules_journals base_path t3)"
      "journal (final (modify_xkb_rules a w)) = journal w @ S2 @ S3" for t2 t3 S2 S3
    using that by blast
  obtain t2 S2 where 2: "S2 \<in> set (rules_journals evdev_path t2)"
    "journal (final (rules_file_step a evdev_path w)) = journal w @ S2"
    using rules_file_step_journal [of evdev_path a w] by blast
  show ?thesis
  proof (cases "rules_file_step a evdev_path w")
    case (Exit c w1)
    have "[] \<in> set (rules_journals base_path [])" by (simp add: rules_journals_def)
    moreover have "journal (final (modify_xkb_rules a w)) = journal w @ S2 @ []"
      using 2(2) Exit by (simp add: modify_xkb_rules_two)
    ultimately show ?thesis using 2(1) by (intro goal)
  next
    case (Return w1)
    obtain t3 S3 where 3: "S3 \<in> set (rules_journals base_path t3)"
      "journal (final (rules_file_step a base_path w1)) = journal w1 @ S3"
      using rules_file_step_journal [of base_path a w1] by blast
    have "journal (final (modify_xkb_rules a w)) = journal w @ S2 @ S3"
      using 2(2) 3(2) Return by (simp add: modify_xkb_rules_two)
    then show ?thesis using 2(1) 3(1) by (intro goal)
  qed
qed

lemma run_journal:
  "\<exists>t1 t2 t3. \<exists>S1 \<in> set (symbols_journals (path_join (script_dir e) SYMBOL_FILE_NAME) symbols_path t1).
     \<exists>S2 \<in> set (rules_journals evdev_path t2). \<exists>S3 \<in> set (rules_journals base_path t3).
       journal (snd (main e a w)) = journal w @ S1 @ S2 @ S3"
proof -
  let ?src = "path_join (script_dir e) SYMBOL_FILE_NAME"
  have goal: ?thesis
    if "S1 \<in> set (symbols_journals ?src symbols_path t1)"
      "S2 \<in> set (rules_journals evdev_path t2)" "S3 \<in> set (rules_journals base_path t3)"
      "journal (snd (main e a w)) = journal w @ S1 @ S2 @ S3" for t1 t2 t3 S1 S2 S3
    using that by blast
  have empty: "[] \<in> set (symbols_journals ?src symbols_path [])"
    "[] \<in> set (rules_journals evdev_path [])" "[] \<in> set (rules_journals base_path [])"
    by (simp_all add: symbols_journals_def rules_journals_def)
  have rules: ?thesis
    if 1: "S1 \<in> set (symbols_journals ?src symbols_path t1)" "journal w1 = journal w @ S1"
      and run: "journal (snd (main e a w)) = journal (final (modify_xkb_rules a w1))
                \<or> journal (snd (main e a w)) = journal w1" for S1 t1 w1
  proof -
    obtain t2 t3 S2 S3 where 23: "S2 \<in> set (rules_journals evdev_path t2)"
      "S3 \<in> set (rules_journals base_path t3)"
      "journal (final (modify_xkb_rules a w1)) = journal w1 @ S2 @ S3"
      using modify_xkb_rules_journal [of a w1] by blast
    from run show ?thesis
    proof
      assume "journal (snd (main e a w)) = journal (final (modify_xkb_rules a w1))"
      then have "journal (snd (main e a w)) = journal w @ S1 @ S2 @ S3"
        using 1(2) 23(3) by simp
      then show ?thesis using 1(1) 23(1,2) by (intro goal)
    next
      assume "journal (snd (main e a w)) = journal w1"
      then have "journal (snd (main e a w)) = journal w @ S1 @ [] @ []"
        using 1(2) by simp
      then show ?thesis using 1(1) empty(2,3) by (intro goal)
    qed
  qed
  show ?thesis
  proof (cases "euid e = 0")
    case False
    then have "journal (snd (main e a w)) = journal w @ [] @ [] @ []"
      by (simp add: main_def)
    then show ?thesis using empty by (intro goal)
  next
    case True
    show ?thesis
    proof (cases a)
      case Install
      let ?w = "print ''--- Starting Carbon Layout Installation ---'' w"
      show ?thesis
      proof (cases "text_files ?w ?src")
        case None
        then have "journal (snd (main e a w)) = journal w @ [] @ [] @ []"
          using True Install by (simp add: main_def install_def)
        then show ?thesis using empty by (intro goal)
      next
        case (Some present)
        obtain t1 S1 where 1: "S1 \<in> set (symbols_journals ?src symbols_path t1)"
          "journal (final (append_symbols ?src symbols_path ?w)) = journal ?w @ S1"
          using append_symbols_journal [of ?src symbols_path ?w] by blast
        show ?thesis
        proof (rule rules [OF 1(1)])
          show "journal (final (append_symbols ?src symbols_path ?w)) = journal w @ S1"
            using 1(2) by simp
          show "journal (snd (main e a w)) =
              journal (final (modify_xkb_rules a (final (append_symbols ?src symbols_path ?w))))
            \<or> journal (snd (main e a w)) = journal (final (append_symbols ?src symbols_path ?w))"
            using True Install Some
            by (cases "append_symbols ?src symbols_path ?w";
                cases "modify_xkb_rules Install (final (append_symbols ?src symbols_path ?w))")
               (simp_all add: main_def install_def target_path)
        qed
      qed
    next
      case Remove
      let ?w = "print ''--- Starting Carbon Layout Uninstallation ---'' w"
      obtain t1 S1 where 1: "S1 \<in> set (symbols_journals ?src symbols_path t1)"
        "journal (final (clean_symbols symbols_path ?w)) = journal ?w @ S1"
        using clean_symbols_journal [of ?src symbols_path ?w] by blast
      show ?thesis
      proof (rule rules [OF 1(1)])
        show "journal (final (clean_symbols symbols_path ?w)) = journal w @ S1"
          using 1(2) by simp
        show "journal (snd (main e a w)) =
            journal (final (modify_xkb_rules a (final (clean_symbols symbols_path ?w))))
          \<or> journal (snd (main e a w)) = journal (final (clean_symbols symbols_path ?w))"
          using True Remove
          by (cases "clean_symbols symbols_path ?w";
              cases "modify_xkb_rules Remove (final (clean_symbols symbols_path ?w))")
             (simp_all add: main_def remove_cmd_def target_path)
      qed
    qed
  qed
qed

section \<open>Claim C7: backups\<close>

lemma is_backup_of_backup [simp]: "is_backup_of p (backup_path_of p ts)"
  by (simp add: is_backup_of_def backup_path_of_def)

lemma target_paths_distinct:
  "symbols_path \<noteq> evdev_path" "symbols_path \<noteq> base_path" "evdev_path \<noteq> base_path"
  "evdev_path \<noteq> symbols_path" "base_path \<noteq> symbols_path" "base_path \<noteq> evdev_path"
  by (simp_all add: symbols_path_def evdev_path_def base_path_def)

lemma targets_mem:
  "symbols_path \<in> set target_files" "evdev_path \<in> set target_files"
  "base_path \<in> set target_files"
  by (simp_all add: target_files_def rules_files)

lemma source_not_target: "path_join d SYMBOL_FILE_NAME \<notin> set target_files"
proof
  assume "path_join d SYMBOL_FILE_NAME \<in> set target_files"
  then have "last (path_join d SYMBOL_FILE_NAME) \<in> last ` set target_files"
    by (rule imageI)
  then show False
    by (simp add: target_files_def rules_files path_join_def startswith_def
        SYMBOL_FILE_NAME_def symbols_path_def evdev_path_def base_path_def
        split: if_splits)
qed

lemma rules_segment_disciplined:
  assumes "S \<in> set (rules_journals f ts)" and "f \<notin> set done" and "f \<in> set target_files"
  shows "disciplined done pending S"
  using assms by (auto simp: rules_journals_def)

lemma rules_segments_disciplined:
  assumes "S2 \<in> set (rules_journals evdev_path t2)" and "S3 \<in> set (rules_journals base_path t3)"
    and "evdev_path \<notin> set done" and "base_path \<notin> set done"
  shows "disciplined done pending (S2 @ S3)"
proof -
  have 3: "disciplined ds pd S3" if "base_path \<notin> set ds" for ds pd
    using rules_segment_disciplined [OF assms(2) that targets_mem(3)] .
  show ?thesis
    using assms(1,3,4)
    by (auto simp: rules_journals_def 3 target_paths_distinct targets_mem)
qed

lemma segments_disciplined:
  assumes "S1 \<in> set (symbols_journals src symbols_path t1)"
    and "S2 \<in> set (rules_journals evdev_path t2)" and "S3 \<in> set (rules_journals base_path t3)"
    and "src \<notin> set target_files"
  shows "disciplined [] None (S1 @ S2 @ S3)"
proof -
  have 23: "disciplined ds pd (S2 @ S3)"
    if "evdev_path \<notin> set ds" "base_path \<notin> set ds" for ds pd
    using rules_segments_disciplined [OF assms(2,3) that] .
  show ?thesis
    using assms(1,4)
    by (auto simp: symbols_journals_def 23 target_paths_distinct targets_mem)
qed

lemma backup_paths_not_targets:
  "backup_path_of p ts \<noteq> p"
  "backup_path_of symbols_path ts \<noteq> evdev_path" "backup_path_of symbols_path ts \<noteq> base_path"
  "backup_path_of evdev_path ts \<noteq> symbols_path" "backup_path_of evdev_path ts \<noteq> base_path"
  "backup_path_of base_path ts \<noteq> symbols_path" "backup_path_of base_path ts \<noteq> evdev_path"
  by (simp_all add: backup_path_of_def symbols_path_def evdev_path_def base_path_def)

lemma backups_never_read_iff:
  "backups_never_read evs \<longleftrightarrow>
     set (concat (map backup_made evs)) \<inter> set (concat (map read_paths evs)) = {}"
  by (auto simp: backups_never_read_def)

lemma rules_segment_paths:
  assumes "S \<in> set (rules_journals f ts)"
  shows "set (concat (map backup_made S)) \<subseteq> {backup_path_of f ts}"
    "set (concat (map read_paths S)) \<subseteq> {f}"
  using assms by (auto simp: rules_journals_def)

lemma symbols_segment_paths:
  assumes "S \<in> set (symbols_journals src dst ts)"
  shows "set (concat (map backup_made S)) \<subseteq> {backup_path_of dst ts}"
    "set (concat (map read_paths S)) \<subseteq> {dst, src}"
  using assms by (auto simp: symbols_journals_def)

lemma segments_never_read:
  assumes "S1 \<in> set (symbols_journals src symbols_path t1)"
    and "S2 \<in> set (rules_journals evdev_path t2)" and "S3 \<in> set (rules_journals base_path t3)"
    and "\<forall>f \<in> set (symbols_path # XKB_RULES_FILES). \<forall>ts. src \<noteq> backup_path_of f ts"
  shows "backups_never_read (S1 @ S2 @ S3)"
proof -
  have src: "backup_path_of symbols_path ts \<noteq> src" "backup_path_of evdev_path ts \<noteq> src"
    "backup_path_of base_path ts \<noteq> src" for ts
    using assms(4) by (auto simp: rules_files)
  have made: "set (concat (map backup_made (S1 @ S2 @ S3))) \<subseteq>
      {backup_path_of symbols_path t1, backup_path_of evdev_path t2, backup_path_of base_path t3}"
    using symbols_segment_paths(1) [OF assms(1)] rules_segment_paths(1) [OF assms(2)]
      rules_segment_paths(1) [OF assms(3)] by auto
  have reads: "set (concat (map read_paths (S1 @ S2 @ S3))) \<subseteq>
      {symbols_path, src, evdev_path, base_path}"
    using symbols_segment_paths(2) [OF assms(1)] rules_segment_paths(2) [OF assms(2)]
      rules_segment_paths(2) [OF assms(3)] by auto
  have "{backup_path_of symbols_path t1, backup_path_of evdev_path t2, backup_path_of base_path t3}
      \<inter> {symbols_path, src, evdev_path, base_path} = {}"
    by (simp add: backup_paths_not_targets src)
  then show ?thesis
    unfolding backups_never_read_iff using made reads by blast
qed

text \<open>
  Each of the three places that call \<^verbatim>\<open>backup_file\<close>, when it returns: the events it adds
  to the journal, among them the copy of the file if the file was there.
\<close>

lemma backed_up_append [simp]: "backed_up (A @ B) p \<longleftrightarrow> backed_up A p \<or> backed_up B p"
  by (auto simp: backed_up_def)

lemma backed_up_Copied [simp]: "backed_up (Copied p b # evs) p"
  by (simp add: backed_up_def)

lemma rules_file_step_backs_up:
  assumes "rules_file_step a f w = Return w'"
  shows "\<exists>S. journal w' = journal w @ S \<and> (xml_files w f \<noteq> None \<longrightarrow> backed_up S f)"
proof (cases "xml_files w f")
  case None
  then have "journal w' = journal w @ []"
    using assms by (auto simp: rules_file_step_absent)
  then show ?thesis using None by blast
next
  case (Some content)
  let ?w = "print ([LF] @ ''Processing: '' @ f) w"
  show ?thesis
  proof (cases f ?w rule: backup_file_cases)
    case absent
    then show ?thesis using Some by (simp add: file_exists_def)
  next
    case (failed w1)
    then show ?thesis
      using assms unfolding rules_file_step_present [OF Some] by simp
  next
    case copied
    have "\<exists>post. journal w' =
        journal w @ Copied f (backup_path_of f (timestamps w (ticks w))) # post"
      using assms unfolding rules_file_step_present [OF Some] copied(3)
      by (auto split: xml_file.splits option.splits)
    then obtain post where
      "journal w' = journal w @ Copied f (backup_path_of f (timestamps w (ticks w))) # post" ..
    then show ?thesis
      by (intro exI [of _ "Copied f (backup_path_of f (timestamps w (ticks w))) # post"]) simp
  qed
qed

lemma append_symbols_backs_up:
  assumes "append_symbols src dst w = Return w'"
  shows "\<exists>S. journal w' = journal w @ S \<and> (file_exists w dst \<longrightarrow> backed_up S dst)"
proof (cases dst w rule: backup_file_cases)
  case absent
  obtain S where "journal (final (append_symbols src dst w)) = journal w @ S"
    using append_symbols_journal [of src dst w] by blast
  then show ?thesis using absent(1) assms by auto
next
  case (failed w1)
  then show ?thesis using assms unfolding append_symbols_def by simp
next
  case copied
  have "\<exists>post. journal w' =
      journal w @ Copied dst (backup_path_of dst (timestamps w (ticks w))) # post"
    using assms unfolding append_symbols_def copied(3)
    by (auto simp: Let_def split: option.splits)
  then obtain post where
    "journal w' = journal w @ Copied dst (backup_path_of dst (timestamps w (ticks w))) # post" ..
  then show ?thesis
    by (intro exI [of _ "Copied dst (backup_path_of dst (timestamps w (ticks w))) # post"]) simp
qed

lemma clean_symbols_backs_up:
  assumes "clean_symbols p w = Return w'"
  shows "\<exists>S. journal w' = journal w @ S \<and> (text_files w p \<noteq> None \<longrightarrow> backed_up S p)"
proof (cases "text_files w p")
  case None
  then have "journal w' = journal w @ []"
    using assms by (auto simp: clean_symbols_def)
  then show ?thesis using None by blast
next
  case (Some present)
  show ?thesis
  proof (cases p w rule: backup_file_cases)
    case absent
    then show ?thesis using Some by (simp add: file_exists_def)
  next
    case (failed w1)
    then show ?thesis using assms Some unfolding clean_symbols_def by simp
  next
    case copied
    have "\<exists>post. journal w' =
        journal w @ Copied p (backup_path_of p (timestamps w (ticks w))) # post"
      using assms Some unfolding clean_symbols_def copied(3)
      by (auto simp: Let_def split: option.splits)
    then obtain post where
      "journal w' = journal w @ Copied p (backup_path_of p (timestamps w (ticks w))) # post" ..
    then show ?thesis
      by (intro exI [of _ "Copied p (backup_path_of p (timestamps w (ticks w))) # post"]) simp
  qed
qed

lemma modify_xkb_rules_backs_up:
  assumes "exit_code (modify_xkb_rules a w) = 0"
  shows "\<exists>S. journal (final (modify_xkb_rules a w)) = journal w @ S
    \<and> (\<forall>f \<in> set XKB_RULES_FILES. xml_files w f \<noteq> None \<longrightarrow> backed_up S f)"
proof -
  obtain w1 where w1: "rules_file_step a evdev_path w = Return w1"
    using assms rules_file_step_exit [of a evdev_path w]
    by (cases "rules_file_step a evdev_path w") (auto simp: modify_xkb_rules_two)
  obtain w2 where w2: "rules_file_step a base_path w1 = Return w2"
    using assms w1 rules_file_step_exit [of a base_path w1]
    by (cases "rules_file_step a base_path w1") (auto simp: modify_xkb_rules_two)
  obtain S2 where S2: "journal w1 = journal w @ S2"
    "xml_files w evdev_path \<noteq> None \<longrightarrow> backed_up S2 evdev_path"
    using rules_file_step_backs_up [OF w1] by blast
  obtain S3 where S3: "journal w2 = journal w1 @ S3"
    "xml_files w1 base_path \<noteq> None \<longrightarrow> backed_up S3 base_path"
    using rules_file_step_backs_up [OF w2] by blast
  have "xml_files (final (rules_file_step a evdev_path w)) base_path = xml_files w base_path"
    by (rule rules_file_step_xml_other)
       (simp_all add: rules_paths_distinct(1) [symmetric] rules_paths_distinct(2) [symmetric])
  then have b: "xml_files w1 base_path = xml_files w base_path" using w1 by simp
  have "journal (final (modify_xkb_rules a w)) = journal w @ S2 @ S3"
    using w1 w2 S2(1) S3(1) by (simp add: modify_xkb_rules_two)
  then show ?thesis
    using S2(2) S3(2) b by (intro exI [of _ "S2 @ S3"]) (simp add: rules_files)
qed

text \<open>A run that ends with status 0 has made a backup of every target file that was there.\<close>

lemma run_backs_up:
  assumes ok: "fst (main e a w) = 0"
  shows "\<exists>evs. journal (snd (main e a w)) = journal w @ evs
    \<and> (\<forall>f \<in> set XKB_RULES_FILES. xml_files w f \<noteq> None \<longrightarrow> backed_up evs f)
    \<and> (text_files w symbols_path \<noteq> None \<longrightarrow> backed_up evs symbols_path)"
proof -
  have root: "euid e = 0" using ok by (auto simp: main_def split: if_splits)
  have rest: ?thesis
    if w1: "journal w1 = journal w @ S1"
      "text_files w symbols_path \<noteq> None \<longrightarrow> backed_up S1 symbols_path"
      "\<forall>f \<in> set XKB_RULES_FILES. xml_files w1 f = xml_files w f"
      and run: "exit_code (modify_xkb_rules a w1) = 0"
        "journal (snd (main e a w)) = journal (final (modify_xkb_rules a w1))" for w1 S1
  proof -
    obtain S where S: "journal (final (modify_xkb_rules a w1)) = journal w1 @ S"
      "\<forall>f \<in> set XKB_RULES_FILES. xml_files w1 f \<noteq> None \<longrightarrow> backed_up S f"
      using modify_xkb_rules_backs_up [OF run(1)] by blast
    show ?thesis
      using S w1 run(2) by (intro exI [of _ "S1 @ S"]) simp
  qed
  have frame: "\<forall>f \<in> set XKB_RULES_FILES. \<forall>ts. f \<noteq> backup_path_of symbols_path ts"
    by (simp add: rules_files rules_paths_distinct [symmetric])
  show ?thesis
  proof (cases a)
    case Install
    let ?w = "print ''--- Starting Carbon Layout Installation ---'' w"
    let ?src = "path_join (script_dir e) SYMBOL_FILE_NAME"
    from ok root Install have run: "exit_code (install e w) = 0" by (simp add: main_def Let_def)
    then obtain present where src: "text_files ?w ?src = Some present"
      by (cases "text_files ?w ?src") (simp_all add: install_def)
    obtain w1 where w1: "append_symbols ?src symbols_path ?w = Return w1"
      using run src append_symbols_exit [of ?src symbols_path ?w]
      by (cases "append_symbols ?src symbols_path ?w") (auto simp: install_def target_path)
    obtain S1 where S1: "journal w1 = journal ?w @ S1"
      "file_exists ?w symbols_path \<longrightarrow> backed_up S1 symbols_path"
      using append_symbols_backs_up [OF w1] by blast
    have x: "\<forall>f \<in> set XKB_RULES_FILES. xml_files w1 f = xml_files w f"
    proof
      fix f assume "f \<in> set XKB_RULES_FILES"
      then have "xml_files (final (append_symbols ?src symbols_path ?w)) f = xml_files ?w f"
        using frame by (intro append_symbols_xml_files) simp
      then show "xml_files w1 f = xml_files w f" using w1 by simp
    qed
    show ?thesis
    proof (rule rest [of w1 S1])
      show "journal w1 = journal w @ S1" using S1(1) by simp
      show "text_files w symbols_path \<noteq> None \<longrightarrow> backed_up S1 symbols_path"
        using S1(2) by (simp add: file_exists_def)
      show "\<forall>f \<in> set XKB_RULES_FILES. xml_files w1 f = xml_files w f" by (rule x)
      show "exit_code (modify_xkb_rules a w1) = 0"
        using run src w1 Install
        by (cases "modify_xkb_rules Install w1") (simp_all add: install_def target_path)
      show "journal (snd (main e a w)) = journal (final (modify_xkb_rules a w1))"
        using root src w1 Install
        by (cases "modify_xkb_rules Install w1") (simp_all add: main_def install_def target_path)
    qed
  next
    case Remove
    let ?w = "print ''--- Starting Carbon Layout Uninstallation ---'' w"
    from ok root Remove have run: "exit_code (remove_cmd w) = 0" by (simp add: main_def Let_def)
    obtain w1 where w1: "clean_symbols symbols_path ?w = Return w1"
      using run clean_symbols_exit [of symbols_path ?w]
      by (cases "clean_symbols symbols_path ?w") (auto simp: remove_cmd_def target_path)
    obtain S1 where S1: "journal w1 = journal ?w @ S1"
      "text_files ?w symbols_path \<noteq> None \<longrightarrow> backed_up S1 symbols_path"
      using clean_symbols_backs_up [OF w1] by blast
    have x: "\<forall>f \<in> set XKB_RULES_FILES. xml_files w1 f = xml_files w f"
    proof
      fix f assume "f \<in> set XKB_RULES_FILES"
      then have "xml_files (final (clean_symbols symbols_path ?w)) f = xml_files ?w f"
        using frame by (intro clean_symbols_xml_files) simp
      then show "xml_files w1 f = xml_files w f" using w1 by simp
    qed
    show ?thesis
    proof (rule rest [of w1 S1])
      show "journal w1 = journal w @ S1" using S1(1) by simp
      show "text_files w symbols_path \<noteq> None \<longrightarrow> backed_up S1 symbols_path"
        using S1(2) by simp
      show "\<forall>f \<in> set XKB_RULES_FILES. xml_files w1 f = xml_files w f" by (rule x)
      show "exit_code (modify_xkb_rules a w1) = 0"
        using run w1 Remove
        by (cases "modify_xkb_rules Remove w1") (simp_all add: remove_cmd_def target_path)
      show "journal (snd (main e a w)) = journal (final (modify_xkb_rules a w1))"
        using root w1 Remove
        by (cases "modify_xkb_rules Remove w1") (simp_all add: main_def remove_cmd_def target_path)
    qed
  qed
qed

text \<open>
  C7, amended: in every run (either action, any world) the file operations the run
  adds to the journal are disciplined: only target files are copied, every copy
  goes from the file to \<^verbatim>\<open><original>.bak_<timestamp>\<close>, no file is copied twice, and a
  target file is opened for reading (parsed), appended to or rewritten only
  directly after its own copy, so the backup of a file comes before the run parses
  or changes it. In a run that ends with status 0 every rules file and the symbols
  file, if it was there at the start, has been copied; a backup may be made of a
  file that is then not changed. And, the source file not being named like a
  backup of a target, no backup made in the run is read in the run.
\<close>

theorem backups_precede_writes:
  "\<exists>evs. journal (snd (main e a w)) = journal w @ evs \<and> disciplined [] None evs
     \<and> (fst (main e a w) = 0 \<longrightarrow>
          (\<forall>f \<in> set XKB_RULES_FILES. xml_files w f \<noteq> None \<longrightarrow> backed_up evs f)
          \<and> (text_files w symbols_path \<noteq> None \<longrightarrow> backed_up evs symbols_path))
     \<and> ((\<forall>f \<in> set (symbols_path # XKB_RULES_FILES). \<forall>ts.
            path_join (script_dir e) SYMBOL_FILE_NAME \<noteq> backup_path_of f ts)
          \<longrightarrow> backups_never_read evs)"
proof -
  obtain t1 t2 t3 S1 S2 S3 where
    segs: "S1 \<in> set (symbols_journals (path_join (script_dir e) SYMBOL_FILE_NAME) symbols_path t1)"
      "S2 \<in> set (rules_journals evdev_path t2)" "S3 \<in> set (rules_journals base_path t3)"
    and run: "journal (snd (main e a w)) = journal w @ S1 @ S2 @ S3"
    using run_journal [of e a w] by blast
  have made: "(\<forall>f \<in> set XKB_RULES_FILES. xml_files w f \<noteq> None \<longrightarrow> backed_up (S1 @ S2 @ S3) f)
      \<and> (text_files w symbols_path \<noteq> None \<longrightarrow> backed_up (S1 @ S2 @ S3) symbols_path)"
    if zero: "fst (main e a w) = 0"
  proof -
    obtain evs where evs: "journal (snd (main e a w)) = journal w @ evs"
      "(\<forall>f \<in> set XKB_RULES_FILES. xml_files w f \<noteq> None \<longrightarrow> backed_up evs f)
       \<and> (text_files w symbols_path \<noteq> None \<longrightarrow> backed_up evs symbols_path)"
      using run_backs_up [OF zero] by blast
    have "evs = S1 @ S2 @ S3" using evs(1) run by simp
    then show ?thesis using evs(2) by simp
  qed
  have "disciplined [] None (S1 @ S2 @ S3)"
    using segs source_not_target by (rule segments_disciplined)
  then show ?thesis
    using run made segments_never_read [OF segs]
    by (intro exI [of _ "S1 @ S2 @ S3"]) blast
qed

lemma blob_not_backup:
  "\<forall>f \<in> set (symbols_path # XKB_RULES_FILES). \<forall>ts.
     path_join (script_dir root_env) SYMBOL_FILE_NAME \<noteq> backup_path_of f ts"
  by (simp add: root_env_source rules_files)
     (simp add: blob_path_def symbols_path_def evdev_path_def base_path_def backup_path_of_def)

lemmas run_eval =
  main_def install_def remove_cmd_def append_symbols_def clean_symbols_def modify_xkb_rules_def
  rules_file_step_def backup_file_def file_exists_def Let_def print_def record_event_def
  path_join_def startswith_def SYMBOL_FILE_NAME_def XKB_SYMBOLS_DIR_def
  TARGET_SYMBOL_FILE_NAME_def XKB_RULES_FILES_def backup_path_of_def
  symbols_path_def evdev_path_def base_path_def blob_path_def root_env_def clock0_def

lemma patch_tree_fr: "patch_tree a fr_registry = None"
  by (simp add: patch_tree_def find_base_layout_def tree_eval)

theorem backups_precede_writes_witness:
  "\<exists>evs. journal (snd (main root_env Install skip_world)) = journal skip_world @ evs
     \<and> disciplined [] None evs
     \<and> backed_up evs symbols_path \<and> backed_up evs evdev_path \<and> backed_up evs base_path
     \<and> backups_never_read evs"
proof -
  obtain r out where pt: "patch_tree Install us_registry = Some (r, out)"
    by (cases "patch_tree Install us_registry")
       (auto simp: patch_tree_None us_registry_base_layout)
  have 1: "fst (main root_env Install skip_world) = 0"
    by (simp add: skip_world_def run_eval patch_tree_fr pt)
  have 2: "xml_files skip_world evdev_path \<noteq> None" "xml_files skip_world base_path \<noteq> None"
    "text_files skip_world symbols_path \<noteq> None"
    by (simp_all add: skip_world_def example_paths_distinct)
  show ?thesis
    using backups_precede_writes [of root_env Install skip_world] blob_not_backup 1 2
    by (simp add: rules_files) blast
qed

text \<open>
  C7, as the specification states it: a backup is made only for files the run
  mutates. The script makes the backup of a rules file on line 48, before it has
  parsed the file. In a world whose first rules file has no \<^verbatim>\<open>us\<close> layout the install
  copies that file to \<^verbatim>\<open>evdev.xml.bak_<timestamp>\<close> and then skips it: the journal has
  the copy and no write of the file, and the file is as it was.
\<close>

theorem backup_without_write_counterexample:
 "journal (snd (main root_env Install skip_world)) =
  [Copied symbols_path (symbols_path @ ''.bak_20240101_120000''),
   OpenedRead blob_path, Appended symbols_path,
   Copied evdev_path (evdev_path @ ''.bak_20240101_120001''), OpenedRead evdev_path,
   Copied base_path (base_path @ ''.bak_20240101_120002''), OpenedRead base_path,
   Rewrote base_path]
  \<and> xml_files (snd (main root_env Install skip_world)) evdev_path =
      xml_files skip_world evdev_path"
proof -
  obtain r out where pt: "patch_tree Install us_registry = Some (r, out)"
    by (cases "patch_tree Install us_registry")
       (auto simp: patch_tree_None us_registry_base_layout)
  show ?thesis
    by (simp add: skip_world_def run_eval patch_tree_fr pt)
qed

section \<open>The base layout node in a changed tree\<close>

text \<open>
  The first descendant, in document order, that satisfies a test: what the loop of
  lines 56 to 60 finds, with the tag test of \<^verbatim>\<open>findall\<close> and the name test put together.
\<close>

lemma find_filter: "List.find P (filter Q xs) = List.find (\<lambda>x. Q x \<and> P x) xs"
  by (induction xs) auto

lemma find_base_layout_first:
  "find_base_layout root = first_descendant is_base_layout 0 (children root)"
  unfolding find_base_layout_def findall_descendants_def first_descendant_def find_filter
  by (rule arg_cong [where f = "\<lambda>P. List.find P (iter_children 0 (children root))"])
     (auto simp: is_base_layout_def)

lemma find_append:
  "List.find P (xs @ ys) = (case List.find P xs of None \<Rightarrow> List.find P ys | Some x \<Rightarrow> Some x)"
  by (induction xs) auto

lemma find_map_path:
  "List.find (\<lambda>(p, d). P d) (map (\<lambda>(p, d). (i # p, d)) xs) =
     map_option (\<lambda>(p, d). (i # p, d)) (List.find (\<lambda>(p, d). P d) xs)"
  by (induction xs) auto

lemma first_descendant_Nil [simp]: "first_descendant P i [] = None"
  by (simp add: first_descendant_def)

lemma first_descendant_Cons:
  "first_descendant P i (c # cs) =
     (if P c then Some ([i], c)
      else case first_descendant P 0 (children c) of
             Some (q, x) \<Rightarrow> Some (i # q, x)
           | None \<Rightarrow> first_descendant P (Suc i) cs)"
  by (cases c)
     (auto simp: first_descendant_def find_append find_map_path split: option.splits)

text \<open>A change inside a layout element leaves the tag and the name of every element above it.\<close>

lemma filter_update_same:
  "i < length xs \<Longrightarrow> P (xs ! i) = P y \<Longrightarrow> (P y \<Longrightarrow> g (xs ! i) = g y) \<Longrightarrow>
   map g (filter P (xs[i := y])) = map g (filter P xs)"
proof (induction xs arbitrary: i)
  case Nil
  then show ?case by simp
next
  case (Cons x xs)
  then show ?case by (cases i) auto
qed

lemma name_is_name_texts:
  "name_is e v \<longleftrightarrow> (case name_texts e of [] \<Rightarrow> False | x # _ \<Rightarrow> x = Some v)"
proof -
  define ns where "ns = concat (map (\<lambda>c. findall c ''name'') (findall e ''configItem''))"
  have 1: "name_texts e = map text_of ns"
    by (simp add: name_texts_def ns_def map_concat comp_def)
  have 2: "name_is e v \<longleftrightarrow> (case ns of [] \<Rightarrow> False | n # _ \<Rightarrow> text_of n = Some v)"
    unfolding name_is_def find_config_name_def find_path_def ns_def [symmetric]
    by (cases ns) simp_all
  show ?thesis unfolding 1 2 by (cases ns) simp_all
qed

lemma update_at_tag:
  "(\<And>x. tag (f x) = tag x) \<Longrightarrow> tag (update_at p f e) = tag e"
  by (cases p) auto

lemma update_at_text:
  "p \<noteq> [] \<Longrightarrow> text_of (update_at p f e) = text_of e"
  by (cases p) auto

lemma name_texts_update_at:
  assumes "subtree e p = Some l" and "p \<noteq> []" and "tag l = ''layout''"
    and "\<And>x. tag (f x) = tag x"
  shows "name_texts (update_at p f e) = name_texts e"
proof -
  from assms(2) obtain j q where p: "p = j # q" by (cases p) auto
  with assms(1) have j: "j < length (children e)"
    and sub: "subtree (children e ! j) q = Some l"
    by (auto split: if_splits)
  let ?d = "children e ! j"
  let ?d' = "update_at q f ?d"
  have tag': "tag ?d' = tag ?d" using assms(4) by (rule update_at_tag)
  have names: "map text_of (findall ?d' ''name'') = map text_of (findall ?d ''name'')"
    if "tag ?d = ''configItem''"
  proof (cases q)
    case Nil
    then have "?d = l" using sub by simp
    then show ?thesis using that assms(3) by simp
  next
    case (Cons m r)
    with sub have m: "m < length (children ?d)"
      and sub': "subtree (children ?d ! m) r = Some l"
      by (auto split: if_splits)
    let ?n = "children ?d ! m"
    have tn: "tag (update_at r f ?n) = tag ?n" using assms(4) by (rule update_at_tag)
    have "text_of (update_at r f ?n) = text_of ?n" if "tag ?n = ''name''"
    proof (cases r)
      case Nil
      then have "?n = l" using sub' by simp
      then show ?thesis using that assms(3) by simp
    next
      case (Cons a b)
      then show ?thesis by (simp add: update_at_text)
    qed
    then have "map text_of (filter (\<lambda>c. tag c = ''name'') ((children ?d)[m := update_at r f ?n])) =
        map text_of (filter (\<lambda>c. tag c = ''name'') (children ?d))"
      using m tn by (intro filter_update_same) simp_all
    then show ?thesis using Cons m by (simp add: findall_def)
  qed
  have "map (\<lambda>c. map text_of (findall c ''name''))
          (filter (\<lambda>c. tag c = ''configItem'') ((children e)[j := ?d'])) =
        map (\<lambda>c. map text_of (findall c ''name''))
          (filter (\<lambda>c. tag c = ''configItem'') (children e))"
    using j tag' names by (intro filter_update_same) simp_all
  then show ?thesis
    using p j by (simp add: name_texts_def findall_def)
qed

lemma first_descendant_Some:
  assumes "first_descendant P i cs = Some (p, l)"
  shows "P l" and "\<exists>k q. p = (i + k) # q \<and> k < length cs \<and> subtree (cs ! k) q = Some l"
proof -
  from assms obtain n where n: "n < length (iter_children i cs)"
      "iter_children i cs ! n = (p, l)" and "P l"
    unfolding first_descendant_def by (auto simp: find_Some_iff)
  then show "P l" by simp
  from nth_mem [OF n(1)] have "(p, l) \<in> set (iter_children i cs)" by (simp add: n(2))
  then show "\<exists>k q. p = (i + k) # q \<and> k < length cs \<and> subtree (cs ! k) q = Some l"
    using iter_subtree(2) [of i cs] by fastforce
qed

lemma size_children: "size_list size (children c) < size c"
  by (cases c) simp

lemma first_descendant_update:
  assumes keep: "\<And>x. P x \<Longrightarrow> P (f x)"
    and above: "\<And>e p l. subtree e p = Some l \<Longrightarrow> p \<noteq> [] \<Longrightarrow> P l \<Longrightarrow> P (update_at p f e) = P e"
  shows "first_descendant P i cs = Some (k # q, l) \<Longrightarrow>
    i \<le> k \<and> k - i < length cs \<and>
    first_descendant P i (cs[k - i := update_at q f (cs ! (k - i))]) = Some (k # q, f l)"
proof (induction "size_list size cs" arbitrary: cs i k q l rule: less_induct)
  case less
  show ?case
  proof (cases cs)
    case Nil
    then show ?thesis using less.prems by simp
  next
    case (Cons c cs')
    show ?thesis
    proof (cases "P c")
      case True
      then have "k = i" "q = []" "l = c"
        using less.prems Cons by (simp_all add: first_descendant_Cons)
      then show ?thesis
        using True keep [of c] Cons by (simp add: first_descendant_Cons)
    next
      case notP: False
      show ?thesis
      proof (cases "first_descendant P 0 (children c)")
        case (Some r)
        obtain q' x where r: "r = (q', x)" by (cases r)
        then have kql: "k = i" "q = q'" "l = x"
          using less.prems Cons notP Some by (simp_all add: first_descendant_Cons)
        from first_descendant_Some [OF Some [unfolded r]]
        obtain k' q'' where q': "q' = k' # q''" "k' < length (children c)"
          "subtree (children c ! k') q'' = Some x" and Px: "P x"
          by auto
        have sub: "subtree c q' = Some x" using q' by simp
        have small: "size_list size (children c) < size_list size cs"
          using size_children [of c] Cons by simp
        from less.hyps [OF small Some [unfolded r q']]
        have inner: "first_descendant P 0 ((children c)[k' := update_at q'' f (children c ! k')])
            = Some (k' # q'', f x)" by simp
        have "\<not> P (update_at q' f c)"
          using above [OF sub _ Px] q'(1) notP by simp
        moreover have "children (update_at q' f c) =
            (children c)[k' := update_at q'' f (children c ! k')]"
          using q' by simp
        ultimately show ?thesis
          using kql Cons inner q'(1) by (simp add: first_descendant_Cons)
      next
        case None
        then have rest: "first_descendant P (Suc i) cs' = Some (k # q, l)"
          using less.prems Cons notP by (simp add: first_descendant_Cons)
        have small: "size_list size cs' < size_list size cs" using Cons by simp
        from less.hyps [OF small rest]
        have ih: "Suc i \<le> k" "k - Suc i < length cs'"
          "first_descendant P (Suc i) (cs'[k - Suc i := update_at q f (cs' ! (k - Suc i))])
             = Some (k # q, f l)" by simp_all
        obtain d where d: "k - i = Suc d" "k - Suc i = d" using ih(1) by (cases "k - i") auto
        show ?thesis
          using ih Cons notP None d by (simp add: first_descendant_Cons)
      qed
    qed
  qed
qed

section \<open>The variant list after the loop over the descriptors\<close>

lemma foldl_reconcile_Some:
  "fst (foldl (reconcile a) (Some vl, out) ds) =
     Some (set_children
       (foldl (\<lambda>cs (name, description).
                 filter (\<lambda>c. \<not> is_variant_named name c) cs
                 @ (if a = Install then [new_variant name description] else []))
          (children vl) ds) vl)"
proof (induction ds arbitrary: vl out)
  case Nil
  show ?case by simp
next
  case (Cons d ds)
  obtain n dsc where d: "d = (n, dsc)" by (cases d)
  show ?case
  proof (cases a)
    case Install
    show ?thesis
      using Cons.IH [of "set_children (filter (\<lambda>c. \<not> is_variant_named n c) (children vl)
                          @ [new_variant n dsc]) vl"
                        "out @ [''  + Added variant '' @ quoted n @ ''.'']"]
      unfolding Install d by (simp add: reconcile_Install_Some)
  next
    case Remove
    show ?thesis
      using Cons.IH [of "set_children (filter (\<lambda>c. \<not> is_variant_named n c) (children vl)) vl"
                        "out @ map (\<lambda>v. ''  - Removed variant '' @ quoted n @ ''.'')
                                 (filter (is_variant_named n) (children vl))"]
      unfolding Remove d by (simp add: reconcile_Remove_Some)
  qed
qed

lemma first_index_Some:
  "first_index P xs = Some j \<Longrightarrow> j < length xs \<and> P (xs ! j) \<and> (\<forall>i < j. \<not> P (xs ! i))"
proof (induction xs arbitrary: j)
  case Nil
  then show ?case by simp
next
  case (Cons x xs)
  show ?case
  proof (cases "P x")
    case True
    then show ?thesis using Cons.prems by simp
  next
    case False
    then obtain k where k: "first_index P xs = Some k" "j = Suc k"
      using Cons.prems by auto
    from Cons.IH [OF k(1)] show ?thesis
      using False k(2) by (simp add: less_Suc_eq_0_disj) (auto simp: less_Suc_eq_0_disj)
  qed
qed

lemma first_index_update:
  "first_index P xs = Some j \<Longrightarrow> P y \<Longrightarrow> first_index P (xs[j := y]) = Some j"
proof (induction xs arbitrary: j)
  case Nil
  then show ?case by simp
next
  case (Cons x xs)
  show ?case
  proof (cases "P x")
    case True
    then show ?thesis using Cons.prems by simp
  next
    case False
    then obtain k where k: "first_index P xs = Some k" "j = Suc k"
      using Cons.prems by auto
    from Cons.IH [OF k(1) Cons.prems(2)] show ?thesis
      using False k(2) by simp
  qed
qed

text \<open>What lines 66 to 94 do to the base layout node.\<close>

lemma foldl_reconcile_pair:
  "foldl (reconcile a) (Some vl, []) VARIANTS_TO_INSTALL =
      (Some (set_children (reconciled_children a (children vl)) vl),
       snd (foldl (reconcile a) (Some vl, []) VARIANTS_TO_INSTALL))"
  using foldl_reconcile_Some [of a vl "[]" VARIANTS_TO_INSTALL]
  unfolding reconciled_children_def by (simp only: prod_eq_iff fst_conv snd_conv simp_thms)

lemma patch_layout_Some:
  assumes "first_index (\<lambda>c. tag c = ''variantList'') (children l) = Some j"
  shows "fst (patch_layout a l) =
     set_children ((children l)
       [j := set_children (reconciled_children a (children (children l ! j)))
               (children l ! j)]) l"
proof -
  obtain out where "foldl (reconcile a) (Some (children l ! j), []) VARIANTS_TO_INSTALL =
      (Some (set_children (reconciled_children a (children (children l ! j))) (children l ! j)),
       out)"
    using foldl_reconcile_pair [of a "children l ! j"] by blast
  then show ?thesis
    unfolding patch_layout_def assms by simp
qed

lemma patch_layout_None_Install:
  assumes "first_index (\<lambda>c. tag c = ''variantList'') (children l) = None"
  shows "fst (patch_layout Install l) =
     append_child l (Element ''variantList'' [] None None (reconciled_children Install []))"
proof -
  have "\<exists>out.
    foldl (reconcile Install) (Some (Element ''variantList'' [] None None []), [])
       VARIANTS_TO_INSTALL =
      (Some (set_children (reconciled_children Install []) (Element ''variantList'' [] None None [])),
       out)"
    using foldl_reconcile_pair [of Install "Element ''variantList'' [] None None []"]
    by (simp only: element.sel) blast
  then obtain out where
    "foldl (reconcile Install) (Some (Element ''variantList'' [] None None []), [])
       VARIANTS_TO_INSTALL =
      (Some (set_children (reconciled_children Install []) (Element ''variantList'' [] None None [])),
       out)" by blast
  then show ?thesis
    unfolding patch_layout_def assms by (simp add: set_children_def)
qed

lemma patch_layout_None_Remove:
  assumes "first_index (\<lambda>c. tag c = ''variantList'') (children l) = None"
  shows "fst (patch_layout Remove l) = l"
  unfolding patch_layout_def assms by simp

lemma patch_layout_tag [simp]: "tag (fst (patch_layout a l)) = tag l"
proof (cases "first_index (\<lambda>c. tag c = ''variantList'') (children l)")
  case None
  then show ?thesis
    by (cases a) (simp_all add: patch_layout_None_Install patch_layout_None_Remove append_child_def)
next
  case (Some j)
  then show ?thesis by (simp add: patch_layout_Some)
qed

lemma patch_layout_name_texts: "name_texts (fst (patch_layout a l)) = name_texts l"
proof (cases "first_index (\<lambda>c. tag c = ''variantList'') (children l)")
  case None
  then show ?thesis
    by (cases a)
       (simp_all add: patch_layout_None_Install patch_layout_None_Remove append_child_def
          name_texts_def findall_def)
next
  case (Some j)
  from first_index_Some [OF Some]
  have j: "j < length (children l)" "tag (children l ! j) = ''variantList''" by simp_all
  have "filter (\<lambda>c. tag c = ''configItem'')
      ((children l)[j := set_children (reconciled_children a (children (children l ! j)))
                           (children l ! j)])
    = filter (\<lambda>c. tag c = ''configItem'') (children l)"
    using filter_update_same [where g = "\<lambda>x. x" and P = "\<lambda>c. tag c = ''configItem''", OF j(1)]
    by (simp add: j(2))
  then show ?thesis
    by (simp add: patch_layout_Some [OF Some] name_texts_def findall_def)
qed

lemma is_base_layout_name_texts:
  "tag x = tag y \<Longrightarrow> name_texts x = name_texts y \<Longrightarrow> is_base_layout x = is_base_layout y"
  by (simp add: is_base_layout_def name_is_name_texts)

lemma is_base_layout_patch: "is_base_layout (fst (patch_layout a l)) = is_base_layout l"
  by (rule is_base_layout_name_texts) (simp_all add: patch_layout_name_texts)

text \<open>
  The script keeps a reference to the layout node and changes it in place: in the
  changed tree the search of lines 55 to 60 finds the changed node at the same
  place.
\<close>

lemma find_base_layout_patch:
  assumes "find_base_layout root = Some (p, l)"
  shows "find_base_layout (update_at p (\<lambda>l. fst (patch_layout a l)) root)
     = Some (p, fst (patch_layout a l))"
proof -
  from assms have fd: "first_descendant is_base_layout 0 (children root) = Some (p, l)"
    by (simp add: find_base_layout_first)
  from first_descendant_Some(2) [OF fd] obtain k q where p: "p = k # q" by auto
  have above: "is_base_layout (update_at p' (\<lambda>l. fst (patch_layout a l)) e) = is_base_layout e"
    if "subtree e p' = Some l'" "p' \<noteq> []" "is_base_layout l'" for e p' l'
  proof (rule is_base_layout_name_texts)
    show "tag (update_at p' (\<lambda>l. fst (patch_layout a l)) e) = tag e"
      by (rule update_at_tag) simp
    show "name_texts (update_at p' (\<lambda>l. fst (patch_layout a l)) e) = name_texts e"
      using that by (intro name_texts_update_at [of e p' l']) (simp_all add: is_base_layout_def)
  qed
  have "0 \<le> k \<and> k - 0 < length (children root) \<and>
      first_descendant is_base_layout 0
        ((children root)[k - 0 := update_at q (\<lambda>l. fst (patch_layout a l)) (children root ! (k - 0))])
      = Some (k # q, fst (patch_layout a l))"
  proof (rule first_descendant_update [where P = is_base_layout])
    show "\<And>x. is_base_layout x \<Longrightarrow> is_base_layout (fst (patch_layout a x))"
      by (simp add: is_base_layout_patch)
    show "\<And>e p l. subtree e p = Some l \<Longrightarrow> p \<noteq> [] \<Longrightarrow> is_base_layout l \<Longrightarrow>
        is_base_layout (update_at p (\<lambda>l. fst (patch_layout a l)) e) = is_base_layout e"
      by (rule above)
    show "first_descendant is_base_layout 0 (children root) = Some (k # q, l)"
      using fd p by simp
  qed
  then show ?thesis
    by (simp add: find_base_layout_first p)
qed

lemma reconciled_children_Remove:
  "reconciled_children Remove cs = filter (\<lambda>c. \<not> is_managed_variant c) cs"
  by (simp add: reconciled_children_def VARIANTS_TO_INSTALL_def is_managed_variant_def
      managed_ids_def conj_commute)


section \<open>Re-indented documents\<close>

text \<open>
  Re-indenting a document changes white-space-only text and tails only, so it
  changes neither where the base layout is found nor which variants are managed
  ones.
\<close>

lemma unindent_text_of: "text_of (unindent e) = (if blank (text_of e) then None else text_of e)"
  by (cases e) simp

lemma findall_unindent: "findall (unindent e) t = map unindent (findall e t)"
  by (simp add: findall_def filter_map comp_def)

lemma name_texts_unindent:
  "name_texts (unindent e) = map (\<lambda>x. if blank x then None else x) (name_texts e)"
  by (simp add: name_texts_def findall_unindent map_concat comp_def unindent_text_of)

lemma name_is_unindent:
  assumes "\<not> blank (Some v)"
  shows "name_is (unindent e) v = name_is e v"
proof -
  have "(if blank x then None else x) = Some v \<longleftrightarrow> x = Some v" for x
    using assms by auto
  then show ?thesis
    by (cases "name_texts e") (simp_all add: name_is_name_texts name_texts_unindent)
qed

lemma managed_names_not_blank:
  "\<not> blank (Some BASE_LAYOUT)" "\<forall>ident \<in> set managed_ids. \<not> blank (Some ident)"
  by (simp_all add: blank_def strip_def isspace_def BASE_LAYOUT_def managed_ids_def
      VARIANTS_TO_INSTALL_def)

lemma is_base_layout_unindent [simp]: "is_base_layout (unindent e) = is_base_layout e"
  by (simp add: is_base_layout_def name_is_unindent managed_names_not_blank)

lemma is_managed_variant_unindent [simp]: "is_managed_variant (unindent e) = is_managed_variant e"
  using managed_names_not_blank(2)
  by (simp add: is_managed_variant_def is_variant_named_def name_is_unindent list_ex_iff)

lemma iter_unindent:
  "iter (unindent e) = map (\<lambda>(p, d). (p, unindent d)) (iter e)"
  "iter_children i (map unindent cs) = map (\<lambda>(p, d). (p, unindent d)) (iter_children i cs)"
proof (induction e and i cs rule: iter_iter_children.induct)
  case (1 t a x y cs)
  then show ?case by simp
next
  case (2 i)
  show ?case by simp
next
  case (3 i c cs)
  then show ?case by (simp add: case_prod_beta comp_def)
qed

lemma find_map_unindent:
  "(\<And>x. P (g x) = P x) \<Longrightarrow>
   List.find (\<lambda>(p, d). P d) (map (\<lambda>(p, d). (p, g d)) xs)
     = map_option (\<lambda>(p, d). (p, g d)) (List.find (\<lambda>(p, d). P d) xs)"
  by (induction xs) (auto simp: case_prod_beta)

lemma find_base_layout_unindent:
  "find_base_layout (unindent root)
     = map_option (\<lambda>(p, d). (p, unindent d)) (find_base_layout root)"
  by (simp add: find_base_layout_first first_descendant_def iter_unindent(2)
      find_map_unindent [where P = is_base_layout])

lemma first_index_map:
  "(\<And>x. P (g x) = P x) \<Longrightarrow> first_index P (map g xs) = first_index P xs"
  by (induction xs) simp_all





section \<open>Reading again what was written\<close>









lemma universal_newlines_id: "CR \<notin> set s \<Longrightarrow> universal_newlines s = s"
proof (induction s rule: universal_newlines.induct)
  case 1
  show ?case by simp
next
  case (2 c)
  then show ?case by auto
next
  case (3 c d cs)
  then have "c \<noteq> CR" by auto
  then show ?case using 3 by simp
qed






section \<open>What a remove run that ends normally leaves\<close>






section \<open>Runs that meet no error\<close>

lemma not_malformed_cases:
  assumes "(case xml_files w g of Some (Malformed m) \<Rightarrow> False | _ \<Rightarrow> True)"
  obtains "xml_files w g = None" | root where "xml_files w g = Some (Document root)"
  using assms by (auto split: option.splits xml_file.splits)

lemma rules_file_step_pass:
  assumes we: "write_error v = Map.empty"
    and nm: "(case xml_files v f of Some (Malformed m) \<Rightarrow> False | _ \<Rightarrow> True)"
  shows "\<exists>w'. rules_file_step a f v = Return w' \<and> write_error w' = Map.empty
    \<and> xml_files w' f = map_option (rewritten_file a) (xml_files v f)"
  using nm
proof (cases rule: not_malformed_cases)
  case 1
  then show ?thesis using we by (simp add: rules_file_step_absent)
next
  case (2 root)
  from rules_file_step_ok [OF we 2, of a] show ?thesis
    unfolding rewritten_def rewritten_file_def 2 by auto
qed

lemma modify_xkb_rules_pass:
  assumes we: "write_error w = Map.empty"
    and nm: "list_all (\<lambda>g. case xml_files w g of Some (Malformed m) \<Rightarrow> False | _ \<Rightarrow> True)
               XKB_RULES_FILES"
  shows "\<exists>w2. modify_xkb_rules a w = Return w2 \<and> write_error w2 = Map.empty
    \<and> (\<forall>f \<in> set XKB_RULES_FILES.
          xml_files w2 f = map_option (rewritten_file a) (xml_files w f))
    \<and> xml_files w2 symbols_path = xml_files w symbols_path
    \<and> (\<forall>q. (\<forall>f \<in> set XKB_RULES_FILES. \<forall>ts. q \<noteq> backup_path_of f ts) \<longrightarrow>
           text_files w2 q = text_files w q)"
proof -
  let ?R = "rewritten_file a"
  from nm have nm1: "(case xml_files w evdev_path of Some (Malformed m) \<Rightarrow> False | _ \<Rightarrow> True)"
    and nm2: "(case xml_files w base_path of Some (Malformed m) \<Rightarrow> False | _ \<Rightarrow> True)"
    by (simp_all add: rules_files)
  obtain w1 where w1: "rules_file_step a evdev_path w = Return w1" "write_error w1 = Map.empty"
    "xml_files w1 evdev_path = map_option ?R (xml_files w evdev_path)"
    using rules_file_step_pass [OF we nm1, of a] by blast
  have "xml_files (final (rules_file_step a evdev_path w)) base_path = xml_files w base_path"
    by (rule rules_file_step_xml_other)
       (simp_all add: rules_paths_distinct(1) [symmetric] rules_paths_distinct(2) [symmetric])
  then have b: "xml_files w1 base_path = xml_files w base_path" using w1(1) by simp
  have "xml_files (final (rules_file_step a evdev_path w)) symbols_path = xml_files w symbols_path"
    by (rule rules_file_step_xml_other)
       (simp_all add: target_paths_distinct backup_paths_not_targets [symmetric])
  then have s1: "xml_files w1 symbols_path = xml_files w symbols_path" using w1(1) by simp
  have nm2': "(case xml_files w1 base_path of Some (Malformed m) \<Rightarrow> False | _ \<Rightarrow> True)"
    using nm2 b by simp
  obtain w2 where w2: "rules_file_step a base_path w1 = Return w2" "write_error w2 = Map.empty"
    "xml_files w2 base_path = map_option ?R (xml_files w1 base_path)"
    using rules_file_step_pass [OF w1(2) nm2', of a] by blast
  have "xml_files (final (rules_file_step a base_path w1)) evdev_path = xml_files w1 evdev_path"
    by (rule rules_file_step_xml_other)
       (simp_all add: rules_paths_distinct(1) rules_paths_distinct(3) [symmetric])
  then have e2: "xml_files w2 evdev_path = xml_files w1 evdev_path" using w2(1) by simp
  have "xml_files (final (rules_file_step a base_path w1)) symbols_path = xml_files w1 symbols_path"
    by (rule rules_file_step_xml_other)
       (simp_all add: target_paths_distinct backup_paths_not_targets [symmetric])
  then have s2: "xml_files w2 symbols_path = xml_files w1 symbols_path" using w2(1) by simp
  have run: "modify_xkb_rules a w = Return w2"
    using w1(1) w2(1) by (simp add: modify_xkb_rules_two)
  have frame: "text_files w2 q = text_files w q"
    if "\<forall>f \<in> set XKB_RULES_FILES. \<forall>ts. q \<noteq> backup_path_of f ts" for q
  proof -
    have "text_files (final (rules_loop a XKB_RULES_FILES w)) q = text_files w q"
      using that by (intro rules_loop_text_files) auto
    then show ?thesis using run by (simp add: modify_xkb_rules_def)
  qed
  have docs: "\<forall>f \<in> set XKB_RULES_FILES. xml_files w2 f = map_option ?R (xml_files w f)"
    using w1(3) w2(3) b e2 by (simp add: rules_files)
  show ?thesis
    using run w2(2) docs s1 s2 frame by simp
qed

lemma append_symbols_text_files:
  assumes "q \<noteq> dst" and "\<And>ts. q \<noteq> backup_path_of dst ts"
  shows "text_files (final (append_symbols src dst w)) q = text_files w q"
proof -
  have b: "text_files (final (backup_file dst w)) q = text_files w q"
    using assms(2)
    by (simp add: backup_file_def Let_def print_def record_event_def split: option.splits)
  show ?thesis
    using b assms(1)
    by (auto simp: append_symbols_def Let_def split: option.splits outcome.splits)
qed

lemma not_malformed_rewritten:
  "(case map_option (rewritten_file a) x of Some (Malformed m) \<Rightarrow> False | _ \<Rightarrow> True)
     = (case x of Some (Malformed m) \<Rightarrow> False | _ \<Rightarrow> True)"
  by (auto simp: rewritten_file_def split: option.splits xml_file.splits)

lemma install_pass:
  assumes rc: "runs_clean e w"
    and nb: "\<forall>f \<in> set (symbols_path # XKB_RULES_FILES). \<forall>ts.
               path_join (script_dir e) SYMBOL_FILE_NAME \<noteq> backup_path_of f ts"
  shows "\<exists>w' blob. install e w = Return w' \<and> runs_clean e w'
    \<and> text_files w (path_join (script_dir e) SYMBOL_FILE_NAME) = Some blob
    \<and> text_files w' (path_join (script_dir e) SYMBOL_FILE_NAME) = Some blob
    \<and> text_files w' symbols_path =
         Some ((case text_files w symbols_path of None \<Rightarrow> [] | Some c \<Rightarrow> c)
               @ [LF, LF] @ read_text blob)
    \<and> (\<forall>f \<in> set XKB_RULES_FILES.
          xml_files w' f = map_option (rewritten_file Install) (xml_files w f))"
proof -
  let ?src = "path_join (script_dir e) SYMBOL_FILE_NAME"
  let ?w = "print ''--- Starting Carbon Layout Installation ---'' w"
  from rc obtain blob where blob: "text_files w ?src = Some blob"
    and we: "write_error w = Map.empty" and xs: "xml_files w symbols_path = None"
    and nm: "list_all (\<lambda>g. case xml_files w g of Some (Malformed m) \<Rightarrow> False | _ \<Rightarrow> True)
               XKB_RULES_FILES"
    by (auto simp: runs_clean_def)
  have nbs: "?src \<noteq> backup_path_of symbols_path ts" "?src \<noteq> backup_path_of evdev_path ts"
    "?src \<noteq> backup_path_of base_path ts" for ts
    using nb by (simp_all add: rules_files)
  have w0: "write_error ?w = Map.empty" "text_files ?w ?src = Some blob"
    "xml_files ?w symbols_path = None"
    using blob we xs by simp_all
  obtain w4 blob' where w4: "append_symbols ?src symbols_path ?w = Return w4"
    "write_error w4 = Map.empty"
    "text_files w4 symbols_path =
       Some ((case text_files ?w symbols_path of None \<Rightarrow> [] | Some c \<Rightarrow> c)
             @ [LF, LF] @ read_text blob')"
    "?src \<noteq> backup_path_of symbols_path (timestamps ?w (ticks ?w)) \<longrightarrow> blob' = blob"
    "\<forall>q. (\<forall>ts. q \<noteq> backup_path_of symbols_path ts) \<longrightarrow> xml_files w4 q = xml_files ?w q"
    using append_symbols_ok [OF w0] by blast
  have b': "blob' = blob" using w4(4) nbs(1) by blast
  have "text_files (final (append_symbols ?src symbols_path ?w)) ?src = text_files ?w ?src"
    by (rule append_symbols_text_files) (simp_all add: source_not_symbols nbs)
  then have src4: "text_files w4 ?src = Some blob" using w4(1) blob by simp
  have x4: "xml_files w4 symbols_path = None" "xml_files w4 evdev_path = xml_files w evdev_path"
    "xml_files w4 base_path = xml_files w base_path"
    using w4(5) xs
    by (simp_all add: backup_paths_not_targets [symmetric])
  have nm4: "list_all (\<lambda>g. case xml_files w4 g of Some (Malformed m) \<Rightarrow> False | _ \<Rightarrow> True)
               XKB_RULES_FILES"
    using nm x4 by (simp add: rules_files)
  obtain w5 where w5: "modify_xkb_rules Install w4 = Return w5" "write_error w5 = Map.empty"
    "\<forall>f \<in> set XKB_RULES_FILES. xml_files w5 f = map_option (rewritten_file Install) (xml_files w4 f)"
    "xml_files w5 symbols_path = xml_files w4 symbols_path"
    "\<forall>q. (\<forall>f \<in> set XKB_RULES_FILES. \<forall>ts. q \<noteq> backup_path_of f ts) \<longrightarrow>
           text_files w5 q = text_files w4 q"
    using modify_xkb_rules_pass [OF w4(2) nm4, of Install] by blast
  let ?w' = "print ''To apply changes, please log out and log back in.''
               (print ([LF] @ ''--- Installation Complete ---'') w5)"
  have run: "install e w = Return ?w'"
    using w0(2) w4(1) w5(1) by (simp add: install_def Let_def target_path)
  have src5: "text_files w5 ?src = Some blob"
    using w5(5) src4 nbs by (simp add: rules_files)
  have sym5: "text_files w5 symbols_path = text_files w4 symbols_path"
    using w5(5) by (simp add: rules_files backup_paths_not_targets [symmetric])
  have docs: "\<forall>f \<in> set XKB_RULES_FILES.
      xml_files w5 f = map_option (rewritten_file Install) (xml_files w f)"
    using w5(3) x4 by (simp add: rules_files)
  have nm5: "list_all (\<lambda>g. case xml_files w5 g of Some (Malformed m) \<Rightarrow> False | _ \<Rightarrow> True)
               XKB_RULES_FILES"
    using nm docs
    by (auto simp: rules_files rewritten_file_def split: option.splits xml_file.splits)
  have clean: "runs_clean e ?w'"
    using w5(2,4) src5 x4(1) nm5 by (simp add: runs_clean_def)
  have "text_files ?w' symbols_path =
      Some ((case text_files w symbols_path of None \<Rightarrow> [] | Some c \<Rightarrow> c)
            @ [LF, LF] @ read_text blob)"
    using sym5 w4(3) b' by simp
  then show ?thesis
    using run clean blob src5 docs
    by (intro exI [of _ ?w'] exI [of _ blob]) simp
qed



section \<open>Claim C3: remove after any number of installs\<close>


lemma us_world_clean: "runs_clean root_env us_world"
  by (simp add: runs_clean_def root_env_source rules_files)
     (simp add: us_world_def example_paths_distinct example_paths_distinct [symmetric])


section \<open>Patching twice\<close>

lemma reconciled_children_Install:
  "reconciled_children Install cs =
     filter (\<lambda>c. \<not> is_managed_variant c) cs
     @ [new_variant ''carbon'' ''English (Carbon)'',
        new_variant ''carbon-angle'' ''English (Carbon, Angle Mod)'']"
proof -
  have "is_managed_variant c \<longleftrightarrow>
      is_variant_named ''carbon'' c \<or> is_variant_named ''carbon-angle'' c" for c
    by (simp add: is_managed_variant_def managed_ids_def VARIANTS_TO_INSTALL_def)
  then have "filter (\<lambda>c. \<not> is_managed_variant c) cs =
      filter (\<lambda>c. \<not> is_variant_named ''carbon-angle'' c)
        (filter (\<lambda>c. \<not> is_variant_named ''carbon'' c) cs)"
    by simp
  then show ?thesis
    by (simp add: reconciled_children_def VARIANTS_TO_INSTALL_def)
qed

lemma new_variant_managed:
  "is_managed_variant (new_variant ''carbon'' d)"
  "is_managed_variant (new_variant ''carbon-angle'' d)"
  by (simp_all add: is_managed_variant_def managed_ids_def VARIANTS_TO_INSTALL_def)

lemma reconciled_children_idem:
  "reconciled_children a (reconciled_children a cs) = reconciled_children a cs"
  by (cases a)
     (simp_all add: reconciled_children_Install reconciled_children_Remove new_variant_managed)

lemma first_index_append_None:
  "first_index P xs = None \<Longrightarrow> P y \<Longrightarrow> first_index P (xs @ [y]) = Some (length xs)"
  by (induction xs) (auto split: if_splits)

lemma patch_layout_idem:
  "fst (patch_layout a (fst (patch_layout a l))) = fst (patch_layout a l)"
proof (cases "first_index (\<lambda>c. tag c = ''variantList'') (children l)")
  case None
  show ?thesis
  proof (cases a)
    case Remove
    then show ?thesis using None by (simp add: patch_layout_None_Remove)
  next
    case Install
    let ?V = "Element ''variantList'' [] None None (reconciled_children Install [])"
    have 1: "fst (patch_layout Install l) = append_child l ?V"
      by (rule patch_layout_None_Install [OF None])
    have 2: "first_index (\<lambda>c. tag c = ''variantList'') (children (append_child l ?V))
        = Some (length (children l))"
      using first_index_append_None [OF None, of ?V] by (simp add: append_child_def)
    have 3: "set_children (reconciled_children Install (reconciled_children Install [])) ?V = ?V"
      by (simp add: reconciled_children_idem set_children_def)
    show ?thesis
      unfolding Install 1 patch_layout_Some [OF 2]
      by (simp add: append_child_def 3)
  qed
next
  case (Some j)
  let ?vl = "set_children (reconciled_children a (children (children l ! j))) (children l ! j)"
  from first_index_Some [OF Some]
  have j: "j < length (children l)" "tag (children l ! j) = ''variantList''" by simp_all
  have 1: "fst (patch_layout a l) = set_children ((children l)[j := ?vl]) l"
    by (rule patch_layout_Some [OF Some])
  have 2: "first_index (\<lambda>c. tag c = ''variantList'')
      (children (set_children ((children l)[j := ?vl]) l)) = Some j"
    using first_index_update [OF Some, of ?vl] j(2) by simp
  show ?thesis
    unfolding 1 patch_layout_Some [OF 2]
    using j(1) by (simp add: reconciled_children_idem)
qed

lemma update_at_twice: "update_at p f (update_at p g r) = update_at p (f \<circ> g) r"
  by (induction p arbitrary: r) simp_all

lemma update_at_cong:
  "subtree r p = Some l \<Longrightarrow> f l = g l \<Longrightarrow> update_at p f r = update_at p g r"
  by (induction p arbitrary: r) (auto split: if_splits)

lemma patched_idem: "patched a (patched a r) = patched a r"
proof (cases "find_base_layout r")
  case None
  then show ?thesis by (simp add: patched_def patch_tree_def)
next
  case (Some pl)
  obtain p l where pl: "pl = (p, l)" by (cases pl)
  let ?f = "\<lambda>l. fst (patch_layout a l)"
  have fb: "find_base_layout r = Some (p, l)" using Some pl by simp
  have 1: "patched a r = update_at p ?f r"
    by (simp add: patched_def patch_tree_def fb)
  have 2: "patched a (update_at p ?f r) = update_at p ?f (update_at p ?f r)"
    by (simp add: patched_def patch_tree_def find_base_layout_patch [OF fb])
  have "update_at p (?f \<circ> ?f) r = update_at p ?f r"
    by (rule update_at_cong [OF find_base_layout_Some(1) [OF fb]]) (simp add: patch_layout_idem)
  then show ?thesis by (simp add: 1 2 update_at_twice)
qed

section \<open>Patching and re-indenting\<close>

lemma descriptions_not_blank:
  "\<not> blank (Some ''English (Carbon)'')" "\<not> blank (Some ''English (Carbon, Angle Mod)'')"
  by (simp_all add: blank_def strip_def isspace_def)

lemma unindent_new_variant:
  "\<not> blank (Some n) \<Longrightarrow> \<not> blank (Some d) \<Longrightarrow> unindent (new_variant n d) = new_variant n d"
  by (simp add: new_variant_def blank_def)

lemma carbon_not_blank: "\<not> blank (Some ''carbon'')" "\<not> blank (Some ''carbon-angle'')"
  using managed_names_not_blank(2) by (simp_all add: managed_ids_def VARIANTS_TO_INSTALL_def)

lemma reconciled_children_unindent:
  "reconciled_children a (map unindent cs) = map unindent (reconciled_children a cs)"
  by (cases a)
     (simp_all add: reconciled_children_Install reconciled_children_Remove filter_map comp_def
        unindent_new_variant carbon_not_blank descriptions_not_blank)

lemma unindent_set_children:
  "unindent (set_children cs e) = set_children (map unindent cs) (unindent e)"
  by (cases e) (simp add: set_children_def)

lemma patch_layout_unindent:
  "unindent (fst (patch_layout a l)) = fst (patch_layout a (unindent l))"
proof (cases "first_index (\<lambda>c. tag c = ''variantList'') (children l)")
  case None
  then have None': "first_index (\<lambda>c. tag c = ''variantList'') (children (unindent l)) = None"
    by (simp add: first_index_map)
  show ?thesis
  proof (cases a)
    case Remove
    then show ?thesis using None None' by (simp add: patch_layout_None_Remove)
  next
    case Install
    have "unindent (Element ''variantList'' [] None None (reconciled_children Install []))
        = Element ''variantList'' [] None None (reconciled_children Install [])"
      using reconciled_children_unindent [of Install "[]"] by (simp add: blank_def)
    then show ?thesis
      unfolding Install patch_layout_None_Install [OF None] patch_layout_None_Install [OF None']
      by (simp add: append_child_def unindent_set_children)
  qed
next
  case (Some j)
  then have Some': "first_index (\<lambda>c. tag c = ''variantList'') (children (unindent l)) = Some j"
    by (simp add: first_index_map)
  from first_index_Some [OF Some] have j: "j < length (children l)" by simp
  show ?thesis
    unfolding patch_layout_Some [OF Some] patch_layout_Some [OF Some']
    using j
    by (simp add: unindent_set_children map_update reconciled_children_unindent)
qed

lemma unindent_update_at:
  assumes "\<And>y. unindent (f y) = g (unindent y)"
  shows "unindent (update_at p f x) = update_at p g (unindent x)"
  by (induction p arbitrary: x) (simp_all add: assms unindent_set_children map_update)

lemma patched_unindent: "unindent (patched a r) = patched a (unindent r)"
proof (cases "find_base_layout r")
  case None
  then show ?thesis by (simp add: patched_def patch_tree_def find_base_layout_unindent)
next
  case (Some pl)
  obtain p l where pl: "pl = (p, l)" by (cases pl)
  have "unindent (update_at p (\<lambda>l. fst (patch_layout a l)) r)
      = update_at p (\<lambda>l. fst (patch_layout a l)) (unindent r)"
    by (rule unindent_update_at) (rule patch_layout_unindent)
  then show ?thesis
    using Some pl by (simp add: patched_def patch_tree_def find_base_layout_unindent)
qed

lemma unindent_rewritten: "unindent (rewritten a r) = unindent (patched a r)"
  by (simp add: rewritten_def patched_def unindent_indent split: option.splits)

text \<open>
  A second pass over a rules document changes white space only: what it writes is
  what the first pass wrote, up to pretty-printing.
\<close>

lemma rewritten_twice: "unindent (rewritten a (rewritten a r)) = unindent (rewritten a r)"
proof -
  have "unindent (rewritten a (rewritten a r)) = patched a (unindent (rewritten a r))"
    by (simp add: unindent_rewritten patched_unindent)
  also have "\<dots> = patched a (patched a (unindent r))"
    by (simp add: unindent_rewritten patched_unindent)
  also have "\<dots> = unindent (rewritten a r)"
    by (simp add: patched_idem unindent_rewritten patched_unindent)
  finally show ?thesis .
qed

section \<open>Claim C1: installing twice\<close>

text \<open>
  C1 asks that a second install leave the symbols file and the rules documents as
  the first install left them. In a world in which runs meet no error, both
  installs end normally and every rules document is, after the second install,
  what it was after the first up to pretty-printing; but lines 119 to 123 append
  to the symbols file without looking at it, so after the second install the
  symbols file is what the first install left followed by the two line feeds and
  the blocks once more, and it differs from what the first install left.
\<close>

theorem install_twice_appends_twice:
  assumes "runs_clean e w"
    and "\<forall>f \<in> set (symbols_path # XKB_RULES_FILES). \<forall>ts.
           path_join (script_dir e) SYMBOL_FILE_NAME \<noteq> backup_path_of f ts"
  shows "\<exists>w1 w2 once blob. install e w = Return w1 \<and> install e w1 = Return w2
    \<and> text_files w (path_join (script_dir e) SYMBOL_FILE_NAME) = Some blob
    \<and> text_files w1 symbols_path = Some once
    \<and> text_files w2 symbols_path = Some (once @ [LF, LF] @ read_text blob)
    \<and> text_files w2 symbols_path \<noteq> text_files w1 symbols_path
    \<and> (\<forall>f \<in> set XKB_RULES_FILES.
          (xml_files w1 f = None \<longrightarrow> xml_files w2 f = None)
          \<and> (\<forall>r1. xml_files w1 f = Some (Document r1) \<longrightarrow>
                 (\<exists>r2. xml_files w2 f = Some (Document r2) \<and> unindent r2 = unindent r1)))"
proof -
  let ?src = "path_join (script_dir e) SYMBOL_FILE_NAME"
  obtain w1 blob where w1: "install e w = Return w1" "runs_clean e w1"
    "text_files w ?src = Some blob" "text_files w1 ?src = Some blob"
    "text_files w1 symbols_path =
       Some ((case text_files w symbols_path of None \<Rightarrow> [] | Some c \<Rightarrow> c)
             @ [LF, LF] @ read_text blob)"
    "\<forall>f \<in> set XKB_RULES_FILES. xml_files w1 f = map_option (rewritten_file Install) (xml_files w f)"
    using install_pass [OF assms] by blast
  obtain w2 blob' where w2: "install e w1 = Return w2"
    "text_files w1 ?src = Some blob'"
    "text_files w2 symbols_path =
       Some ((case text_files w1 symbols_path of None \<Rightarrow> [] | Some c \<Rightarrow> c)
             @ [LF, LF] @ read_text blob')"
    "\<forall>f \<in> set XKB_RULES_FILES. xml_files w2 f = map_option (rewritten_file Install) (xml_files w1 f)"
    using install_pass [OF w1(2) assms(2)] by blast
  define once where "once = (case text_files w symbols_path of None \<Rightarrow> [] | Some c \<Rightarrow> c)
             @ [LF, LF] @ read_text blob"
  have b: "blob' = blob" using w1(4) w2(2) by simp
  have t1: "text_files w1 symbols_path = Some once" using w1(5) by (simp add: once_def)
  have t2: "text_files w2 symbols_path = Some (once @ [LF, LF] @ read_text blob)"
    using w2(3) t1 b by simp
  have neq: "text_files w2 symbols_path \<noteq> text_files w1 symbols_path"
    using t1 t2 by simp
  have docs: "(xml_files w1 f = None \<longrightarrow> xml_files w2 f = None)
      \<and> (\<forall>r1. xml_files w1 f = Some (Document r1) \<longrightarrow>
             (\<exists>r2. xml_files w2 f = Some (Document r2) \<and> unindent r2 = unindent r1))"
    if f: "f \<in> set XKB_RULES_FILES" for f
  proof -
    have x1: "xml_files w1 f = map_option (rewritten_file Install) (xml_files w f)"
      and x2: "xml_files w2 f = map_option (rewritten_file Install) (xml_files w1 f)"
      using w1(6) w2(4) f by blast+
    show ?thesis
    proof (intro conjI impI allI)
      assume "xml_files w1 f = None"
      then show "xml_files w2 f = None" using x2 by simp
    next
      fix r1 assume r1: "xml_files w1 f = Some (Document r1)"
      have "\<exists>r0. xml_files w f = Some (Document r0) \<and> r1 = rewritten Install r0"
      proof (cases "xml_files w f")
        case None
        then show ?thesis using x1 r1 by simp
      next
        case (Some c)
        then show ?thesis using x1 r1 by (cases c) (simp_all add: rewritten_file_def)
      qed
      then obtain r0 where r0: "xml_files w f = Some (Document r0)" "r1 = rewritten Install r0"
        by blast
      have "xml_files w2 f = Some (Document (rewritten Install r1))"
        using x2 r1 by (simp add: rewritten_file_def)
      moreover have "unindent (rewritten Install r1) = unindent r1"
        unfolding r0(2) by (rule rewritten_twice)
      ultimately show "\<exists>r2. xml_files w2 f = Some (Document r2) \<and> unindent r2 = unindent r1"
        by blast
    qed
  qed
  show ?thesis
    using w1(1,3) w2(1) t1 t2 neq docs
    by (intro exI [of _ w1] exI [of _ w2] exI [of _ once] exI [of _ blob]) blast
qed

lemma read_text_carbon_block: "read_text carbon_block = carbon_block"
  unfolding read_text_def
  by (rule universal_newlines_id) (simp add: example_lines LF_def CR_def)

theorem install_twice_appends_twice_witness:
  "\<exists>w1 w2. install root_env us_world = Return w1 \<and> install root_env w1 = Return w2
     \<and> text_files w1 symbols_path = Some (fr_block @ [LF, LF] @ carbon_block)
     \<and> text_files w2 symbols_path =
         Some (fr_block @ [LF, LF] @ carbon_block @ [LF, LF] @ carbon_block)
     \<and> (\<exists>r1 r2. xml_files w1 evdev_path = Some (Document r1)
           \<and> xml_files w2 evdev_path = Some (Document r2) \<and> unindent r2 = unindent r1)"
proof -
  have ev: "evdev_path \<in> set XKB_RULES_FILES" by (simp add: rules_files)
  have src: "text_files us_world (path_join (script_dir root_env) SYMBOL_FILE_NAME)
      = Some carbon_block"
    "text_files us_world symbols_path = Some fr_block"
    by (simp_all add: root_env_source us_world_def example_paths_distinct)
  obtain w1 w2 once blob where run: "install root_env us_world = Return w1"
    "install root_env w1 = Return w2"
    and blob: "text_files us_world (path_join (script_dir root_env) SYMBOL_FILE_NAME) = Some blob"
    and t: "text_files w1 symbols_path = Some once"
      "text_files w2 symbols_path = Some (once @ [LF, LF] @ read_text blob)"
    and docs: "\<forall>f \<in> set XKB_RULES_FILES.
          (xml_files w1 f = None \<longrightarrow> xml_files w2 f = None)
          \<and> (\<forall>r1. xml_files w1 f = Some (Document r1) \<longrightarrow>
                 (\<exists>r2. xml_files w2 f = Some (Document r2) \<and> unindent r2 = unindent r1))"
    using install_twice_appends_twice [OF us_world_clean blob_not_backup] by blast
  have b: "blob = carbon_block" using blob src(1) by simp
  obtain w1' where w1': "install root_env us_world = Return w1'"
    "text_files w1' symbols_path =
       Some ((case text_files us_world symbols_path of None \<Rightarrow> [] | Some c \<Rightarrow> c)
             @ [LF, LF] @ read_text carbon_block)"
    "xml_files w1' evdev_path = map_option (rewritten_file Install) (xml_files us_world evdev_path)"
    using install_pass [OF us_world_clean blob_not_backup] src(1) ev by fastforce
  have same: "w1' = w1" using run(1) w1'(1) by simp
  have once: "once = fr_block @ [LF, LF] @ carbon_block"
    using t(1) w1'(2) same src(2) by (simp add: read_text_carbon_block)
  obtain r1 where r1: "xml_files w1 evdev_path = Some (Document r1)"
    using w1'(3) same us_world_facts(1) by (simp add: rewritten_file_def)
  then obtain r2 where r2: "xml_files w2 evdev_path = Some (Document r2)"
    "unindent r2 = unindent r1"
    using docs ev by blast
  show ?thesis
    using run t r1 r2 by (simp add: once b read_text_carbon_block)
qed

section \<open>What a pass keeps\<close>












section \<open>Claim C4: what is not managed\<close>






end
